theory Spec2Isabelle
  imports Main "HOL-Library.AList"
begin

section \<open>Values held in configuration maps\<close>

text \<open>
  The Go code passes configuration around as \<^verbatim>\<open>map[string]interface{}\<close>. The values that
  occur are strings (everything a prompt returns), nested maps, and, in a file read back from
  disk, whatever else the file holds. A value that is neither a string, nil nor a mapping
  (a number, a boolean, a sequence) is kept opaque as \<open>VOther t\<close>, where \<open>t\<close> is the text that
  \<^verbatim>\<open>cast.ToString\<close> renders for it (the empty text where the cast fails).

  A Go map is an association list here: \<open>map_of\<close> is the lookup, \<open>AList.update\<close> the
  assignment \<^verbatim>\<open>m[k] = v\<close>, and the order of the list is one order in which \<^verbatim>\<open>range\<close> may
  enumerate the map.
\<close>

datatype val =
    VStr string
  | VOther string
  | VNull
  | VMap "(string \<times> val) list"

type_synonym gomap = "(string \<times> val) list"

definition keys :: "gomap \<Rightarrow> string set" where
  "keys m = fst ` set m"

text \<open>
  \<^verbatim>\<open>strings.ToLower\<close> as it acts on ASCII text: the letters A-Z are lower-cased and every
  other character is kept. The library lower-cases capital letters outside ASCII as well, so
  a property of keys that the program does not fix is stated for ASCII keys.
\<close>

definition lower_char :: "char \<Rightarrow> char" where
  "lower_char c =
     (case map_of (zip ''ABCDEFGHIJKLMNOPQRSTUVWXYZ'' ''abcdefghijklmnopqrstuvwxyz'') c of
        None \<Rightarrow> c
      | Some d \<Rightarrow> d)"

definition ToLower :: "string \<Rightarrow> string" where
  "ToLower s = map lower_char s"

definition ascii :: "string \<Rightarrow> bool" where
  "ascii s = list_all (\<lambda>c. of_char c < (128::nat)) s"

text \<open>
  \<^verbatim>\<open>cast.ToString\<close> and \<^verbatim>\<open>cast.ToStringMap\<close> of the library behind \<^verbatim>\<open>viper.GetString\<close> and
  \<^verbatim>\<open>viper.GetStringMap\<close>: a failed cast gives the zero value. \<^verbatim>\<open>ToStringMap\<close> of a string
  decodes the string as a JSON object; the decoder is the parameter \<open>json\<close>.
\<close>

fun cast_ToString :: "val \<Rightarrow> string" where
  "cast_ToString (VStr s) = s"
| "cast_ToString (VOther t) = t"
| "cast_ToString VNull = []"
| "cast_ToString (VMap m) = []"

fun cast_ToStringMap :: "(string \<Rightarrow> gomap) \<Rightarrow> val \<Rightarrow> gomap" where
  "cast_ToStringMap json (VMap m) = m"
| "cast_ToStringMap json (VStr s) = json s"
| "cast_ToStringMap json (VOther t) = []"
| "cast_ToStringMap json VNull = []"

section \<open>The settings store (the viper singleton)\<close>

text \<open>
  The source keeps its settings in the process-global store of the viper library and uses
  five of its operations: \<^verbatim>\<open>Set\<close>, \<^verbatim>\<open>SetConfigFile\<close>, \<^verbatim>\<open>ReadInConfig\<close>, \<^verbatim>\<open>GetString\<close> /
  \<^verbatim>\<open>GetStringMap\<close> and \<^verbatim>\<open>WriteConfigAs\<close>. The store has a layer of explicitly set values
  (\<open>override\<close>) and a layer read from the configuration file (\<open>config\<close>); the source registers
  no flags, environment bindings, defaults or aliases, so the other layers stay empty.
  Keys are case-insensitive: every key, also inside a nested map, is lower-cased when a value
  is set or a file is read. Keys are taken as atomic (none of the keys of the source contains
  the path delimiter \<^verbatim>\<open>.\<close>).
\<close>

record viper =
  override :: gomap
  config :: gomap
  configFile :: string

definition fresh_viper :: viper where
  "fresh_viper = \<lparr>override = [], config = [], configFile = []\<rparr>"

text \<open>
  \<^verbatim>\<open>copyAndInsensitiviseMap\<close>: a new map with every key lower-cased, nested maps treated
  the same way. Entries are assigned in enumeration order, so of two keys that differ only in
  case the later one stays.
\<close>

fun toCaseInsensitiveValue :: "val \<Rightarrow> val"
  and copyAndInsensitiviseMap :: "gomap \<Rightarrow> gomap \<Rightarrow> gomap" where
  "toCaseInsensitiveValue (VMap m) = VMap (copyAndInsensitiviseMap [] m)"
| "toCaseInsensitiveValue (VStr s) = VStr s"
| "toCaseInsensitiveValue (VOther t) = VOther t"
| "toCaseInsensitiveValue VNull = VNull"
| "copyAndInsensitiviseMap nm [] = nm"
| "copyAndInsensitiviseMap nm ((k, v) # m) =
     copyAndInsensitiviseMap (AList.update (ToLower k) (toCaseInsensitiveValue v) nm) m"

definition viper_Set :: "string \<Rightarrow> val \<Rightarrow> viper \<Rightarrow> viper" where
  "viper_Set key v s =
     s\<lparr>override := AList.update (ToLower key) (toCaseInsensitiveValue v) (override s)\<rparr>"

text \<open>\<^verbatim>\<open>viper.Get\<close>: the set value if there is one (and it is not nil), else the file's.\<close>

definition viper_Get :: "string \<Rightarrow> viper \<Rightarrow> val" where
  "viper_Get key s =
     (let fromConfig = (case map_of (config s) (ToLower key) of None \<Rightarrow> VNull | Some v \<Rightarrow> v)
      in case map_of (override s) (ToLower key) of
           None \<Rightarrow> fromConfig
         | Some v \<Rightarrow> if v = VNull then fromConfig else v)"

definition viper_GetString :: "string \<Rightarrow> viper \<Rightarrow> string" where
  "viper_GetString key s = cast_ToString (viper_Get key s)"

definition viper_GetStringMap :: "(string \<Rightarrow> gomap) \<Rightarrow> string \<Rightarrow> viper \<Rightarrow> gomap" where
  "viper_GetStringMap json key s = cast_ToStringMap json (viper_Get key s)"

text \<open>
  \<^verbatim>\<open>viper.AllSettings\<close>, which \<^verbatim>\<open>WriteConfigAs\<close> serialises: every leaf key of either layer
  with the value \<^verbatim>\<open>Get\<close> finds for it. That is the set layer merged over the file layer,
  map by map, without nil leaves and without maps that hold no leaf.
\<close>

fun merge_val :: "val \<Rightarrow> val \<Rightarrow> val"
  and merge_over :: "gomap \<Rightarrow> gomap \<Rightarrow> gomap" where
  "merge_val (VMap a) (VMap b) = VMap (merge_over a b)"
| "merge_val (VMap a) (VStr s) = VMap a"
| "merge_val (VMap a) (VOther t) = VMap a"
| "merge_val (VMap a) VNull = VMap a"
| "merge_val (VStr s) u = VStr s"
| "merge_val (VOther t) u = VOther t"
| "merge_val VNull u = u"
| "merge_over [] b = b"
| "merge_over ((k, v) # a) b =
     (case map_of b k of
        None \<Rightarrow> (k, v) # merge_over a b
      | Some u \<Rightarrow> (k, merge_val v u) # merge_over a (AList.delete k b))"

fun leaves_val :: "val \<Rightarrow> val option"
  and leaves_map :: "gomap \<Rightarrow> gomap" where
  "leaves_val (VMap m) = (case leaves_map m of [] \<Rightarrow> None | e # es \<Rightarrow> Some (VMap (e # es)))"
| "leaves_val (VStr s) = Some (VStr s)"
| "leaves_val (VOther t) = Some (VOther t)"
| "leaves_val VNull = None"
| "leaves_map [] = []"
| "leaves_map ((k, v) # m) =
     (case leaves_val v of None \<Rightarrow> leaves_map m | Some w \<Rightarrow> (k, w) # leaves_map m)"

definition viper_AllSettings :: "viper \<Rightarrow> gomap" where
  "viper_AllSettings s = leaves_map (merge_over (override s) (config s))"

section \<open>The process state\<close>

text \<open>
  A file is present with the key/value document it parses to, or it cannot be read (missing,
  unreadable, or not a document). The human at the terminal is the list of answers still to
  come; every prompt takes one, and a prompt with no answer left fails with end of input.
\<close>

type_synonym fcontent = "gomap option"

datatype resp = Entered string | Failed string

datatype error =
    ErrPrompt string
  | ErrNew string
  | ErrRead string
  | ErrWrap string error

record world =
  inputs :: "resp list"
  prompts :: "(string \<times> (error + string)) list"
  store :: viper
  files :: "string \<Rightarrow> fcontent"
  write_fault :: "(string \<times> fcontent) option"
  out :: "string list"
  logged :: "string list"

text \<open>
  \<^verbatim>\<open>promptui.Prompt.Run\<close> and \<^verbatim>\<open>promptui.Select.Run\<close>: the prompt takes the next answer
  and returns the text entered or the error of an aborted interaction. A selection can only
  deliver one of the listed items; an answer outside the list is a failed prompt. Every prompt
  issued is recorded in \<open>prompts\<close> with its label and its outcome.
\<close>

definition answer :: "resp list \<Rightarrow> error + string" where
  "answer rs =
     (case rs of
        [] \<Rightarrow> Inl (ErrPrompt ''EOF'')
      | Failed e # rest \<Rightarrow> Inl (ErrPrompt e)
      | Entered s # rest \<Rightarrow> Inr s)"

definition prompt_Run :: "string \<Rightarrow> world \<Rightarrow> (error + string) \<times> world" where
  "prompt_Run label w =
     (let r = answer (inputs w)
      in (r, w\<lparr>inputs := tl (inputs w), prompts := prompts w @ [(label, r)]\<rparr>))"

definition select_Run :: "string \<Rightarrow> string list \<Rightarrow> world \<Rightarrow> (error + string) \<times> world" where
  "select_Run label items w =
     (let r = (case answer (inputs w) of
                 Inl e \<Rightarrow> Inl e
               | Inr s \<Rightarrow> if s \<in> set items then Inr s else Inl (ErrPrompt ''no such item''))
      in (r, w\<lparr>inputs := tl (inputs w), prompts := prompts w @ [(label, r)]\<rparr>))"

text \<open>
  \<^verbatim>\<open>viper.SetConfigFile\<close>, \<^verbatim>\<open>viper.ReadInConfig\<close> and \<^verbatim>\<open>viper.WriteConfigAs\<close>. A write
  that fails reports its error and leaves at the path whatever the fault says (the old
  content, an empty or a damaged file).
\<close>

definition viper_SetConfigFile :: "string \<Rightarrow> world \<Rightarrow> world" where
  "viper_SetConfigFile path w = w\<lparr>store := (store w)\<lparr>configFile := path\<rparr>\<rparr>"

definition viper_ReadInConfig :: "world \<Rightarrow> error option \<times> world" where
  "viper_ReadInConfig w =
     (case files w (configFile (store w)) of
        None \<Rightarrow> (Some (ErrRead (configFile (store w))), w)
      | Some doc \<Rightarrow>
          (None, w\<lparr>store := (store w)\<lparr>config := copyAndInsensitiviseMap [] doc\<rparr>\<rparr>))"

definition viper_WriteConfigAs :: "string \<Rightarrow> world \<Rightarrow> error option \<times> world" where
  "viper_WriteConfigAs path w =
     (case write_fault w of
        None \<Rightarrow> (None, w\<lparr>files := (files w)(path := Some (viper_AllSettings (store w)))\<rparr>)
      | Some (e, left) \<Rightarrow> (Some (ErrNew e), w\<lparr>files := (files w)(path := left)\<rparr>))"

fun Error :: "error \<Rightarrow> string" where
  "Error (ErrPrompt e) = e"
| "Error (ErrNew e) = e"
| "Error (ErrRead p) = ''cannot read config file '' @ p"
| "Error (ErrWrap msg e) = msg @ '': '' @ Error e"

section \<open>Integrations and the registry\<close>

text \<open>
  What \<^verbatim>\<open>reflect\<close> shows of an integration instance: its kind, and for a struct the declared
  fields in order, each with its name and its type (the type's printed form and its kind).
\<close>

datatype kind = KInvalid | KBasic | KSlice | KMap | KPtr | KStruct | KOther

record gotype =
  type_String :: string
  type_Kind :: kind

record StructField =
  Name :: string
  Type :: gotype

datatype govalue =
    IStruct "StructField list"
  | IPtr govalue
  | INilPtr
  | INil
  | IBasic
  | ISlice
  | IMap
  | IOther

fun Kind :: "govalue \<Rightarrow> kind" where
  "Kind (IStruct fs) = KStruct"
| "Kind (IPtr v) = KPtr"
| "Kind INilPtr = KPtr"
| "Kind INil = KInvalid"
| "Kind IBasic = KBasic"
| "Kind ISlice = KSlice"
| "Kind IMap = KMap"
| "Kind IOther = KOther"

text \<open>
  \<^verbatim>\<open>if val.Kind() == reflect.Ptr { val = val.Elem() }\<close>: one dereference; the element of a
  nil pointer is the invalid value.
\<close>

fun indirect :: "govalue \<Rightarrow> govalue" where
  "indirect (IPtr v) = v"
| "indirect INilPtr = INil"
| "indirect v = v"

fun fields_of :: "govalue \<Rightarrow> StructField list" where
  "fields_of (IStruct fs) = fs"
| "fields_of v = []"

text \<open>
  Modelled from the spec: the registry package (\<^verbatim>\<open>registry.GetSource\<close>,
  \<^verbatim>\<open>registry.GetDestination\<close>, \<^verbatim>\<open>registry.GetSources\<close>, \<^verbatim>\<open>registry.GetDestinations\<close>) is not
  among the sources. Per the spec it maps integration names to instances and reports whether
  a name was found; it is a parameter of every function that consults it.
\<close>

record registry =
  sources :: "(string \<times> govalue) list"
  destinations :: "(string \<times> govalue) list"

definition registry_GetSource :: "registry \<Rightarrow> string \<Rightarrow> govalue option" where
  "registry_GetSource reg name = map_of (sources reg) name"

definition registry_GetDestination :: "registry \<Rightarrow> string \<Rightarrow> govalue option" where
  "registry_GetDestination reg name = map_of (destinations reg) name"

definition getRegisteredDataSources :: "registry \<Rightarrow> string list" where
  "getRegisteredDataSources reg = map fst (sources reg)"

definition getRegisteredDataDestinations :: "registry \<Rightarrow> string list" where
  "getRegisteredDataDestinations reg = map fst (destinations reg)"

section \<open>The configuration module (the variant with integration fields)\<close>

definition field_label :: "StructField \<Rightarrow> string" where
  "field_label f = ''Enter '' @ Name f @ '' ('' @ type_String (Type f) @ '')''"

text \<open>The loop over the fields of \<^verbatim>\<open>readIntegrationFields\<close>, \<open>cfg\<close> the map filled so far.\<close>

fun read_fields :: "StructField list \<Rightarrow> gomap \<Rightarrow> world \<Rightarrow> (error + gomap) \<times> world" where
  "read_fields [] cfg w = (Inr cfg, w)"
| "read_fields (f # fs) cfg w =
     (case prompt_Run (field_label f) w of
        (Inl err, w') \<Rightarrow> (Inl (ErrWrap (''failed to get value for field '' @ Name f) err), w')
      | (Inr v, w') \<Rightarrow> read_fields fs (AList.update (Name f) (VStr v) cfg) w')"

definition readIntegrationFields ::
  "registry \<Rightarrow> string \<Rightarrow> bool \<Rightarrow> world \<Rightarrow> (error + gomap) \<times> world" where
  "readIntegrationFields reg method isSource w =
     (case (if isSource then registry_GetSource reg method
            else registry_GetDestination reg method) of
        None \<Rightarrow> (Inl (ErrNew ''integration not found in registry''), w)
      | Some integration \<Rightarrow>
          (let v = indirect integration
           in if Kind v \<noteq> KStruct then (Inl (ErrNew ''integration is not a struct''), w)
              else read_fields (fields_of v) [] w))"

definition rules_label :: "string \<Rightarrow> string" where
  "rules_label ruleType = ''Enter '' @ ruleType @ '' rules (multiline, finish with empty line):''"

text \<open>
  The loop of \<^verbatim>\<open>readRules\<close>, \<open>rules\<close> the text gathered so far. Each turn takes one answer,
  so the loop ends when the answers do (with the end-of-input failure) if not before.
\<close>

function read_rules :: "string \<Rightarrow> string \<Rightarrow> world \<Rightarrow> (error + string) \<times> world" where
  "read_rules ruleType rules w =
     (case prompt_Run (rules_label ruleType) w of
        (Inl err, w') \<Rightarrow> (Inl (ErrWrap (''failed to read '' @ ruleType) err), w')
      | (Inr line, w') \<Rightarrow>
          if line = [] then (Inr rules, w')
          else read_rules ruleType (rules @ line @ [CHR 0x0A]) w')"
  by pat_completeness auto
termination
  by (relation "measure (\<lambda>(ruleType, rules, w). length (inputs w))")
     (auto simp: prompt_Run_def answer_def Let_def split: list.splits resp.splits)

definition readRules :: "string \<Rightarrow> world \<Rightarrow> (error + string) \<times> world" where
  "readRules ruleType w = read_rules ruleType [] w"

definition readErrorHandlingConfig :: "world \<Rightarrow> (error + gomap) \<times> world" where
  "readErrorHandlingConfig w =
     (case prompt_Run
             ''Enter Error Handling Strategy (e.g., LOG_AND_CONTINUE, STOP_ON_ERROR):'' w of
        (Inl err, w') \<Rightarrow> (Inl (ErrWrap ''failed to read error handling strategy'' err), w')
      | (Inr strategy, w') \<Rightarrow> (Inr [(''strategy'', VStr strategy)], w'))"

definition saveConfig :: "gomap \<Rightarrow> world \<Rightarrow> world" where
  "saveConfig cfg w =
     (let w1 = w\<lparr>store := fold (\<lambda>(key, v). viper_Set key v) cfg (store w)\<rparr>
      in case viper_WriteConfigAs ''config.yaml'' w1 of
           (Some err, w2) \<Rightarrow>
             w2\<lparr>out := out w2 @ [''Failed to save configuration: '' @ Error err]\<rparr>
         | (None, w2) \<Rightarrow> w2\<lparr>out := out w2 @ [''Configuration saved to config.yaml'']\<rparr>)"

definition SetupConfigInteractively :: "registry \<Rightarrow> world \<Rightarrow> (error + gomap) \<times> world" where
  "SetupConfigInteractively reg w =
     (let inputMethods = getRegisteredDataSources reg;
          outputMethods = getRegisteredDataDestinations reg
      in case select_Run ''Select Input Method'' inputMethods w of
        (Inl err, w1) \<Rightarrow> (Inl (ErrWrap ''failed to get input method'' err), w1)
      | (Inr inputMethod, w1) \<Rightarrow>
      (case readIntegrationFields reg inputMethod True w1 of
        (Inl err, w2) \<Rightarrow> (Inl (ErrWrap ''failed to get fields for input method'' err), w2)
      | (Inr inputconfig, w2) \<Rightarrow>
      (case select_Run ''Select Output Method'' outputMethods w2 of
        (Inl err, w3) \<Rightarrow> (Inl (ErrWrap ''failed to get output method'' err), w3)
      | (Inr outputMethod, w3) \<Rightarrow>
      (case readIntegrationFields reg outputMethod False w3 of
        (Inl err, w4) \<Rightarrow> (Inl (ErrWrap ''failed to get fields for output method'' err), w4)
      | (Inr outputconfig, w4) \<Rightarrow>
      (case readRules ''validations'' w4 of
        (Inl err, w5) \<Rightarrow> (Inl (ErrWrap ''failed to read validation rules'' err), w5)
      | (Inr validations, w5) \<Rightarrow>
      (case readRules ''transformations'' w5 of
        (Inl err, w6) \<Rightarrow> (Inl (ErrWrap ''failed to read transformation rules'' err), w6)
      | (Inr transformations, w6) \<Rightarrow>
      (case readErrorHandlingConfig w6 of
        (Inl err, w7) \<Rightarrow>
          (Inl (ErrWrap ''failed to read error handling configuration'' err), w7)
      | (Inr errorhandling, w7) \<Rightarrow>
          (let cfg = [(''inputMethod'', VStr inputMethod),
                      (''outputMethod'', VStr outputMethod),
                      (''inputconfig'', VMap inputconfig),
                      (''outputconfig'', VMap outputconfig),
                      (''validations'', VStr validations),
                      (''transformations'', VStr transformations),
                      (''errorhandling'', VMap errorhandling)]
           in (Inr cfg, saveConfig cfg w7)))))))))"

definition LoadConfig ::
  "(string \<Rightarrow> gomap) \<Rightarrow> string \<Rightarrow> world \<Rightarrow> (error + gomap) \<times> world" where
  "LoadConfig json cfgFile w =
     (case viper_ReadInConfig (viper_SetConfigFile cfgFile w) of
        (Some err, w') \<Rightarrow> (Inl err, w')
      | (None, w') \<Rightarrow>
          (Inr [(''inputMethod'', VStr (viper_GetString ''inputMethod'' (store w'))),
                (''outputMethod'', VStr (viper_GetString ''outputMethod'' (store w'))),
                (''inputconfig'', VMap (viper_GetStringMap json ''inputconfig'' (store w'))),
                (''outputconfig'', VMap (viper_GetStringMap json ''outputconfig'' (store w'))),
                (''errorhandling'',
                   VMap (viper_GetStringMap json ''errorhandling'' (store w'))),
                (''validations'', VStr (viper_GetString ''validations'' (store w'))),
                (''transformations'', VStr (viper_GetString ''transformations'' (store w')))],
           w'\<lparr>logged := logged w' @ [''Configuration loaded from '' @ cfgFile]\<rparr>))"

section \<open>The configuration module (the simpler variant, config/main.go)\<close>

text \<open>Here the document is a \<^verbatim>\<open>map[string]string\<close>; a missing key reads as the empty string.\<close>

type_synonym strmap = "(string \<times> string) list"

definition index_str :: "strmap \<Rightarrow> string \<Rightarrow> string" where
  "index_str m k = (case map_of m k of None \<Rightarrow> [] | Some v \<Rightarrow> v)"

definition main_LoadConfig :: "string \<Rightarrow> world \<Rightarrow> (error + strmap) \<times> world" where
  "main_LoadConfig cfgFile w =
     (case viper_ReadInConfig (viper_SetConfigFile cfgFile w) of
        (Some err, w') \<Rightarrow> (Inl err, w')
      | (None, w') \<Rightarrow>
          (Inr [(''inputMethod'', viper_GetString ''inputMethod'' (store w')),
                (''outputMethod'', viper_GetString ''outputMethod'' (store w'))],
           w'))"

definition main_saveConfig :: "strmap \<Rightarrow> world \<Rightarrow> world" where
  "main_saveConfig cfg w =
     (let w1 = w\<lparr>store := viper_Set ''outputMethod'' (VStr (index_str cfg ''outputMethod''))
                    (viper_Set ''inputMethod'' (VStr (index_str cfg ''inputMethod''))
                       (store w))\<rparr>
      in case viper_WriteConfigAs ''config.yaml'' w1 of
           (Some err, w2) \<Rightarrow>
             w2\<lparr>out := out w2 @ [''Failed to save configuration: '' @ Error err]\<rparr>
         | (None, w2) \<Rightarrow> w2\<lparr>out := out w2 @ [''Configuration saved to config.yaml'']\<rparr>)"


section \<open>A concrete session\<close>

text \<open>
  The scenario of the specification: a source \<^verbatim>\<open>CSV\<close> with the field \<^verbatim>\<open>Path\<close>, a destination
  \<^verbatim>\<open>SQL\<close> with the fields \<^verbatim>\<open>DSN\<close> and \<^verbatim>\<open>Table\<close>; and a source \<^verbatim>\<open>Kafka\<close> whose only field is
  a slice. The process starts with an empty store and no files.
\<close>

definition string_type :: gotype where
  "string_type = \<lparr>type_String = ''string'', type_Kind = KBasic\<rparr>"

definition csv_source :: govalue where
  "csv_source = IPtr (IStruct [\<lparr>Name = ''Path'', Type = string_type\<rparr>])"

definition kafka_source :: govalue where
  "kafka_source =
     IPtr (IStruct [\<lparr>Name = ''Brokers'',
                      Type = \<lparr>type_String = ''[]string'', type_Kind = KSlice\<rparr>\<rparr>])"

definition sql_destination :: govalue where
  "sql_destination =
     IStruct [\<lparr>Name = ''DSN'', Type = string_type\<rparr>, \<lparr>Name = ''Table'', Type = string_type\<rparr>]"

definition example_registry :: registry where
  "example_registry =
     \<lparr>sources = [(''CSV'', csv_source), (''Kafka'', kafka_source)],
      destinations = [(''SQL'', sql_destination)]\<rparr>"

definition world0 :: world where
  "world0 =
     \<lparr>inputs = [], prompts = [], store = fresh_viper, files = (\<lambda>path. None),
      write_fault = None, out = [], logged = []\<rparr>"

definition example_answers :: "resp list" where
  "example_answers =
     [Entered ''CSV'', Entered ''/in.csv'', Entered ''SQL'', Entered ''postgres://x'',
      Entered ''out'', Entered ''not_null(id)'', Entered [], Entered [],
      Entered ''STOP_ON_ERROR'']"

definition example_doc :: gomap where
  "example_doc =
     [(''inputMethod'', VStr ''CSV''),
      (''outputMethod'', VStr ''SQL''),
      (''inputconfig'', VMap [(''Path'', VStr ''/in.csv'')]),
      (''outputconfig'', VMap [(''DSN'', VStr ''postgres://x''), (''Table'', VStr ''out'')]),
      (''validations'', VStr (''not_null(id)'' @ [CHR 0x0A])),
      (''transformations'', VStr []),
      (''errorhandling'', VMap [(''strategy'', VStr ''STOP_ON_ERROR'')])]"

definition kafka_answers :: "resp list" where
  "kafka_answers =
     [Entered ''Kafka'', Entered ''b1:9092'', Entered ''SQL'', Entered ''postgres://x'',
      Entered ''out'', Entered [], Entered [], Entered ''STOP_ON_ERROR'']"

definition no_json :: "string \<Rightarrow> gomap" where
  "no_json s = []"

text \<open>A process that finds a settings file written earlier, with a key of its own.\<close>

definition stored_file :: gomap where
  "stored_file =
     [(''inputMethod'', VStr ''CSV''),
      (''outputmethod'', VStr ''SQL''),
      (''inputconfig'', VMap [(''path'', VStr ''/in.csv'')]),
      (''validations'', VStr ''not_null(id)''),
      (''owner'', VStr ''ops'')]"

definition world_with_file :: world where
  "world_with_file =
     world0\<lparr>files := (\<lambda>path. if path = ''config.yaml'' then Some stored_file else None)\<rparr>"

text \<open>A process started later on the file system another process has left behind.\<close>

definition later_process :: "world \<Rightarrow> world" where
  "later_process w = world0\<lparr>files := files w\<rparr>"

text \<open>
  What the later process loads after the example session. And a second session, in a process
  that has first loaded the settings file it found, choosing the \<^verbatim>\<open>Kafka\<close> source.
\<close>

definition example_reloaded :: gomap where
  "example_reloaded =
     [(''inputMethod'', VStr ''CSV''),
      (''outputMethod'', VStr ''SQL''),
      (''inputconfig'', VMap [(''path'', VStr ''/in.csv'')]),
      (''outputconfig'', VMap [(''dsn'', VStr ''postgres://x''), (''table'', VStr ''out'')]),
      (''errorhandling'', VMap [(''strategy'', VStr ''STOP_ON_ERROR'')]),
      (''validations'', VStr (''not_null(id)'' @ [CHR 0x0A])),
      (''transformations'', VStr [])]"

definition second_session :: world where
  "second_session =
     (snd (LoadConfig no_json ''config.yaml'' world_with_file))\<lparr>inputs := kafka_answers\<rparr>"

definition kafka_doc :: gomap where
  "kafka_doc =
     [(''inputMethod'', VStr ''Kafka''),
      (''outputMethod'', VStr ''SQL''),
      (''inputconfig'', VMap [(''Brokers'', VStr ''b1:9092'')]),
      (''outputconfig'', VMap [(''DSN'', VStr ''postgres://x''), (''Table'', VStr ''out'')]),
      (''validations'', VStr []),
      (''transformations'', VStr []),
      (''errorhandling'', VMap [(''strategy'', VStr ''STOP_ON_ERROR'')])]"

definition kafka_reloaded :: gomap where
  "kafka_reloaded =
     [(''inputMethod'', VStr ''Kafka''),
      (''outputMethod'', VStr ''SQL''),
      (''inputconfig'', VMap [(''brokers'', VStr ''b1:9092''), (''path'', VStr ''/in.csv'')]),
      (''outputconfig'', VMap [(''dsn'', VStr ''postgres://x''), (''table'', VStr ''out'')]),
      (''errorhandling'', VMap [(''strategy'', VStr ''STOP_ON_ERROR'')]),
      (''validations'', VStr []),
      (''transformations'', VStr [])]"

text \<open>
  A process that has read no settings file, has run the \<^verbatim>\<open>Kafka\<close> session and is about to
  run the example session. And the simpler variant in a process that finds the settings file
  but is not allowed to write it: the file stays as it was.
\<close>

definition next_session :: world where
  "next_session =
     (snd (SetupConfigInteractively example_registry (world0\<lparr>inputs := kafka_answers\<rparr>)))
       \<lparr>inputs := example_answers\<rparr>"


section \<open>Notions used to state the properties\<close>

text \<open>The prompts issued between two states, with their outcomes.\<close>

definition issued :: "world \<Rightarrow> world \<Rightarrow> (string \<times> (error + string)) list" where
  "issued w w' = drop (length (prompts w)) (prompts w')"

text \<open>
  A step is quiet when it touches nothing but the terminal: the store, the files, the output
  and the log are as before, the prompts it issued are appended to the record, and it fails
  if one of them failed.
\<close>

definition quiet :: "world \<Rightarrow> (error + 'a) \<times> world \<Rightarrow> bool" where
  "quiet w rw =
     (store (snd rw) = store w \<and> files (snd rw) = files w \<and> out (snd rw) = out w \<and>
      logged (snd rw) = logged w \<and> write_fault (snd rw) = write_fault w \<and>
      prompts (snd rw) = prompts w @ issued w (snd rw) \<and>
      (list_ex (\<lambda>p. isl (snd p)) (issued w (snd rw)) \<longrightarrow> isl (fst rw)))"

definition with_fault :: "(string \<times> fcontent) option \<Rightarrow> 'a \<times> world \<Rightarrow> 'a \<times> world" where
  "with_fault f rw = (fst rw, (snd rw)\<lparr>write_fault := f\<rparr>)"

text \<open>
  A map of entered texts: the keys are distinct and every value is a string. And what
  becomes of a map \<open>m\<close> on its way through the case-insensitive store: \<open>m'\<close> has the
  lower-cased keys of \<open>m\<close>, and a key of \<open>m\<close> that no other key of \<open>m\<close> equals up to case
  keeps its value.
\<close>

definition text_map :: "gomap \<Rightarrow> bool" where
  "text_map m =
     (distinct (map fst m) \<and> list_all (\<lambda>kv. case snd kv of VStr s \<Rightarrow> True | _ \<Rightarrow> False) m)"

definition lowered :: "gomap \<Rightarrow> gomap \<Rightarrow> bool" where
  "lowered m m' =
     (keys m' = ToLower ` keys m \<and>
      (\<forall>k\<in>keys m. (\<forall>k'\<in>keys m. ToLower k' = ToLower k \<longrightarrow> k' = k) \<longrightarrow>
                   map_of m' (ToLower k) = map_of m k))"

text \<open>
  The field names of a document: the keys of its \<^verbatim>\<open>inputconfig\<close> and of its
  \<^verbatim>\<open>outputconfig\<close>.
\<close>

fun nested_keys :: "val option \<Rightarrow> string set" where
  "nested_keys (Some (VMap m)) = keys m"
| "nested_keys other = {}"

definition field_names :: "gomap \<Rightarrow> string set" where
  "field_names doc =
     nested_keys (map_of doc ''inputconfig'') \<union> nested_keys (map_of doc ''outputconfig'')"



text \<open>
  The part of \<^verbatim>\<open>SetupConfigInteractively\<close> that comes before the call of \<^verbatim>\<open>saveConfig\<close>:
  the seven collection steps and the map they are combined into.
\<close>

definition collect_config :: "registry \<Rightarrow> world \<Rightarrow> (error + gomap) \<times> world" where
  "collect_config reg w =
     (case select_Run ''Select Input Method'' (getRegisteredDataSources reg) w of
        (Inl err, w1) \<Rightarrow> (Inl (ErrWrap ''failed to get input method'' err), w1)
      | (Inr inputMethod, w1) \<Rightarrow>
      (case readIntegrationFields reg inputMethod True w1 of
        (Inl err, w2) \<Rightarrow> (Inl (ErrWrap ''failed to get fields for input method'' err), w2)
      | (Inr inputconfig, w2) \<Rightarrow>
      (case select_Run ''Select Output Method'' (getRegisteredDataDestinations reg) w2 of
        (Inl err, w3) \<Rightarrow> (Inl (ErrWrap ''failed to get output method'' err), w3)
      | (Inr outputMethod, w3) \<Rightarrow>
      (case readIntegrationFields reg outputMethod False w3 of
        (Inl err, w4) \<Rightarrow> (Inl (ErrWrap ''failed to get fields for output method'' err), w4)
      | (Inr outputconfig, w4) \<Rightarrow>
      (case readRules ''validations'' w4 of
        (Inl err, w5) \<Rightarrow> (Inl (ErrWrap ''failed to read validation rules'' err), w5)
      | (Inr validations, w5) \<Rightarrow>
      (case readRules ''transformations'' w5 of
        (Inl err, w6) \<Rightarrow> (Inl (ErrWrap ''failed to read transformation rules'' err), w6)
      | (Inr transformations, w6) \<Rightarrow>
      (case readErrorHandlingConfig w6 of
        (Inl err, w7) \<Rightarrow>
          (Inl (ErrWrap ''failed to read error handling configuration'' err), w7)
      | (Inr errorhandling, w7) \<Rightarrow>
          (Inr [(''inputMethod'', VStr inputMethod),
                (''outputMethod'', VStr outputMethod),
                (''inputconfig'', VMap inputconfig),
                (''outputconfig'', VMap outputconfig),
                (''validations'', VStr validations),
                (''transformations'', VStr transformations),
                (''errorhandling'', VMap errorhandling)], w7))))))))"

section \<open>Properties of the collection steps\<close>

lemma prompt_Run_Entered:
  "inputs w = Entered s # rest \<Longrightarrow>
   prompt_Run label w = (Inr s, w\<lparr>inputs := rest, prompts := prompts w @ [(label, Inr s)]\<rparr>)"
  by (simp add: prompt_Run_def answer_def Let_def)

lemma read_rules_lines:
  "\<forall>l\<in>set ls. l \<noteq> [] \<Longrightarrow> inputs w = map Entered ls @ Entered [] # rest \<Longrightarrow>
   read_rules ruleType acc w =
     (Inr (acc @ concat (map (\<lambda>l. l @ [CHR 0x0A]) ls)),
      w\<lparr>inputs := rest,
        prompts := prompts w @ map (\<lambda>l. (rules_label ruleType, Inr l)) (ls @ [[]])\<rparr>)"
proof (induction ls arbitrary: acc w)
  case Nil
  then show ?case by (simp add: prompt_Run_Entered)
next
  case (Cons l ls)
  let ?w' = "w\<lparr>inputs := map Entered ls @ Entered [] # rest,
               prompts := prompts w @ [(rules_label ruleType, Inr l)]\<rparr>"
  have run: "prompt_Run (rules_label ruleType) w = (Inr l, ?w')"
    using Cons.prems(2) by (simp add: prompt_Run_Entered)
  have ne: "l \<noteq> []" using Cons.prems(1) by simp
  have step: "read_rules ruleType acc w = read_rules ruleType (acc @ l @ [CHR 0x0A]) ?w'"
    using run ne by (subst read_rules.simps) simp
  have ih: "read_rules ruleType (acc @ l @ [CHR 0x0A]) ?w' =
     (Inr ((acc @ l @ [CHR 0x0A]) @ concat (map (\<lambda>l. l @ [CHR 0x0A]) ls)),
      ?w'\<lparr>inputs := rest,
        prompts := prompts ?w' @ map (\<lambda>l. (rules_label ruleType, Inr l)) (ls @ [[]])\<rparr>)"
    using Cons.prems(1) by (intro Cons.IH) simp_all
  show ?case unfolding step ih by simp
qed

text \<open>
  Claim C3. When the lines entered are non-empty lines \<open>ls\<close> followed by an empty line,
  \<^verbatim>\<open>readRules\<close> returns the lines of \<open>ls\<close> in order, each followed by a newline, and stops at
  the empty line: the answers after it are left for the next prompt, and one prompt was
  issued for every line including the empty one. The lines \<^verbatim>\<open>a>0\<close>, \<^verbatim>\<open>b<10\<close> and an empty
  line give the two lines with their newlines; an immediate empty line gives the empty text.
\<close>

theorem readRules_collects:
  assumes "\<forall>l\<in>set ls. l \<noteq> []"
    and "inputs w = map Entered ls @ Entered [] # rest"
  shows "readRules ruleType w =
     (Inr (concat (map (\<lambda>l. l @ [CHR 0x0A]) ls)),
      w\<lparr>inputs := rest,
        prompts := prompts w @ map (\<lambda>l. (rules_label ruleType, Inr l)) (ls @ [[]])\<rparr>)"
  using read_rules_lines [OF assms, of ruleType "[]"] by (simp add: readRules_def)

theorem readRules_collects_witness:
  "fst (readRules ''validations''
          (world0\<lparr>inputs := [Entered ''a>0'', Entered ''b<10'', Entered []]\<rparr>))
     = Inr (''a>0'' @ [CHR 0x0A] @ ''b<10'' @ [CHR 0x0A])
   \<and> fst (readRules ''validations'' (world0\<lparr>inputs := [Entered []]\<rparr>)) = Inr []"
  using readRules_collects [of "[''a>0'', ''b<10'']"
      "world0\<lparr>inputs := [Entered ''a>0'', Entered ''b<10'', Entered []]\<rparr>" "[]" "''validations''"]
    readRules_collects [of "[]" "world0\<lparr>inputs := [Entered []]\<rparr>" "[]" "''validations''"]
  by simp


lemma read_fields_all:
  "length vs = length fs \<Longrightarrow> inputs w = map Entered vs @ rest \<Longrightarrow>
   read_fields fs cfg w =
     (Inr (fold (\<lambda>(n, v). AList.update n (VStr v)) (zip (map Name fs) vs) cfg),
      w\<lparr>inputs := rest,
        prompts := prompts w @ map (\<lambda>(f, v). (field_label f, Inr v)) (zip fs vs)\<rparr>)"
proof (induction fs arbitrary: vs cfg w)
  case Nil
  then show ?case by simp
next
  case (Cons f fs)
  then obtain v vs' where vs: "vs = v # vs'" by (cases vs) auto
  let ?w' = "w\<lparr>inputs := map Entered vs' @ rest,
               prompts := prompts w @ [(field_label f, Inr v)]\<rparr>"
  have run: "prompt_Run (field_label f) w = (Inr v, ?w')"
    using Cons.prems(2) vs by (simp add: prompt_Run_Entered)
  have ih: "read_fields fs (AList.update (Name f) (VStr v) cfg) ?w' =
     (Inr (fold (\<lambda>(n, v). AList.update n (VStr v)) (zip (map Name fs) vs')
             (AList.update (Name f) (VStr v) cfg)),
      ?w'\<lparr>inputs := rest,
        prompts := prompts ?w' @ map (\<lambda>(f, v). (field_label f, Inr v)) (zip fs vs')\<rparr>)"
    using Cons.prems(1) vs by (intro Cons.IH) simp_all
  show ?case using run ih vs by simp
qed

lemma keys_update: "keys (AList.update k v m) = insert k (keys m)"
  by (simp add: keys_def dom_update)

lemma keys_fold_update:
  "keys (fold (\<lambda>(n, v). AList.update n (g v)) zs cfg) = keys cfg \<union> fst ` set zs"
proof (induction zs arbitrary: cfg)
  case Nil
  then show ?case by simp
next
  case (Cons z zs)
  obtain n v where z: "z = (n, v)" by (cases z)
  show ?case by (simp add: z Cons.IH keys_update)
qed

lemma map_of_fold_update:
  "map_of (fold (\<lambda>(n, v). AList.update n (g v)) zs cfg) k =
     (case map_of (rev zs) k of None \<Rightarrow> map_of cfg k | Some v \<Rightarrow> Some (g v))"
  by (induction zs arbitrary: cfg) (auto simp: update_conv' map_add_def split: option.splits)

lemma map_of_rev_last:
  "i < length zs \<Longrightarrow> \<forall>j. i < j \<and> j < length zs \<longrightarrow> fst (zs ! j) \<noteq> fst (zs ! i) \<Longrightarrow>
   map_of (rev zs) (fst (zs ! i)) = Some (snd (zs ! i))"
proof (induction zs arbitrary: i)
  case Nil
  then show ?case by simp
next
  case (Cons z zs)
  show ?case
  proof (cases i)
    case 0
    have "fst z \<notin> fst ` set zs"
    proof
      assume "fst z \<in> fst ` set zs"
      then obtain j where "j < length zs" "fst (zs ! j) = fst z"
        by (auto simp: in_set_conv_nth)
      then show False using Cons.prems(2) 0 by (auto dest: spec [of _ "Suc j"])
    qed
    then have "map_of (rev zs) (fst z) = None"
      by (simp add: map_of_eq_None_iff)
    then show ?thesis using 0 by (cases z) (simp add: map_add_def)
  next
    case (Suc i')
    have "map_of (rev zs) (fst (zs ! i')) = Some (snd (zs ! i'))"
      using Cons.prems Suc by (intro Cons.IH) auto
    then show ?thesis using Suc by (simp add: map_add_def)
  qed
qed


text \<open>
  Claim C2. For a registered integration that is a struct (directly or behind one pointer)
  with the fields \<open>fs\<close>, and one answer per field, \<^verbatim>\<open>readIntegrationFields\<close> issues exactly
  one prompt per field in declaration order, labelled with the field's name and type, and
  returns a map whose keys are exactly the field names, each bound to the text entered at its
  prompt, as text; an empty answer is a value like any other. (Were two fields to carry the
  same name, the later answer is the one kept, which is why the binding is stated for a field
  that no later field shares its name with.)
\<close>

theorem readIntegrationFields_collects:
  assumes "(if isSource then registry_GetSource reg method
            else registry_GetDestination reg method) = Some integ"
    and "indirect integ = IStruct fs"
    and "length vs = length fs"
    and "inputs w = map Entered vs @ rest"
  shows "\<exists>cfg w'. readIntegrationFields reg method isSource w = (Inr cfg, w')
      \<and> prompts w' = prompts w @ zip (map field_label fs) (map Inr vs)
      \<and> inputs w' = rest
      \<and> keys cfg = Name ` set fs
      \<and> (\<forall>i<length fs. (\<forall>j. i < j \<and> j < length fs \<longrightarrow> Name (fs ! j) \<noteq> Name (fs ! i)) \<longrightarrow>
             map_of cfg (Name (fs ! i)) = Some (VStr (vs ! i)))"
proof -
  let ?zs = "zip (map Name fs) vs"
  let ?cfg = "fold (\<lambda>(n, v). AList.update n (VStr v)) ?zs []"
  let ?w' = "w\<lparr>inputs := rest,
               prompts := prompts w @ map (\<lambda>(f, v). (field_label f, Inr v)) (zip fs vs)\<rparr>"
  have run: "readIntegrationFields reg method isSource w = (Inr ?cfg, ?w')"
    using assms(1,2) read_fields_all [OF assms(3,4), of "[]"]
    by (simp add: readIntegrationFields_def)
  have log: "map (\<lambda>(f, v). (field_label f, Inr v :: error + string)) (zip fs vs) =
      zip (map field_label fs) (map Inr vs)"
    by (simp add: zip_map_map)
  have "map fst ?zs = map Name fs"
    using assms(3) by simp
  then have "fst ` set ?zs = Name ` set fs"
    by (metis list.set_map)
  then have ks: "keys ?cfg = Name ` set fs"
    by (simp only: keys_fold_update) (simp add: keys_def)
  have vals: "map_of ?cfg (Name (fs ! i)) = Some (VStr (vs ! i))"
    if i: "i < length fs" and last: "\<forall>j. i < j \<and> j < length fs \<longrightarrow> Name (fs ! j) \<noteq> Name (fs ! i)"
    for i
  proof -
    have "map_of (rev ?zs) (fst (?zs ! i)) = Some (snd (?zs ! i))"
      using i last assms(3) by (intro map_of_rev_last) auto
    then have "map_of (rev ?zs) (Name (fs ! i)) = Some (vs ! i)"
      using i assms(3) by simp
    then show ?thesis by (simp add: map_of_fold_update)
  qed
  show ?thesis using run log ks vals by simp
qed

theorem readIntegrationFields_collects_witness:
  "\<exists>cfg w'. readIntegrationFields example_registry ''SQL'' False
       (world0\<lparr>inputs := [Entered ''postgres://x'', Entered []]\<rparr>) = (Inr cfg, w')
     \<and> map fst (prompts w') = [''Enter DSN (string)'', ''Enter Table (string)'']
     \<and> keys cfg = {''DSN'', ''Table''}
     \<and> map_of cfg ''DSN'' = Some (VStr ''postgres://x'')
     \<and> map_of cfg ''Table'' = Some (VStr [])"
proof -
  let ?fs = "[\<lparr>Name = ''DSN'', Type = string_type\<rparr>, \<lparr>Name = ''Table'', Type = string_type\<rparr>]"
  let ?w = "world0\<lparr>inputs := [Entered ''postgres://x'', Entered []]\<rparr>"
  have look: "(if False then registry_GetSource example_registry ''SQL''
               else registry_GetDestination example_registry ''SQL'') = Some sql_destination"
    by (simp add: registry_GetDestination_def example_registry_def)
  have str: "indirect sql_destination = IStruct ?fs"
    by (simp add: sql_destination_def)
  have len: "length [''postgres://x'', []] = length ?fs" by simp
  have inp: "inputs ?w = map Entered [''postgres://x'', []] @ []" by simp
  obtain cfg w' where r: "readIntegrationFields example_registry ''SQL'' False ?w = (Inr cfg, w')"
      and p: "prompts w' = prompts ?w @ zip (map field_label ?fs) (map Inr [''postgres://x'', []])"
      and k: "keys cfg = Name ` set ?fs"
      and v: "\<forall>i<length ?fs. (\<forall>j. i < j \<and> j < length ?fs \<longrightarrow> Name (?fs ! j) \<noteq> Name (?fs ! i)) \<longrightarrow>
             map_of cfg (Name (?fs ! i)) = Some (VStr ([''postgres://x'', []] ! i))"
    using readIntegrationFields_collects [OF look str len inp] by blast
  have d0: "\<forall>j. 0 < j \<and> j < length ?fs \<longrightarrow> Name (?fs ! j) \<noteq> Name (?fs ! 0)"
  proof (intro allI impI)
    fix j :: nat
    assume "0 < j \<and> j < length ?fs"
    then have "j = Suc 0" by simp
    then show "Name (?fs ! j) \<noteq> Name (?fs ! 0)" by simp
  qed
  have d1: "\<forall>j. Suc 0 < j \<and> j < length ?fs \<longrightarrow> Name (?fs ! j) \<noteq> Name (?fs ! Suc 0)"
    by simp
  have l0: "0 < length ?fs" and l1: "Suc 0 < length ?fs"
    by simp_all
  have "map_of cfg (Name (?fs ! 0)) = Some (VStr ([''postgres://x'', []] ! 0))"
    using v l0 d0 by blast
  then have v0: "map_of cfg ''DSN'' = Some (VStr ''postgres://x'')"
    by simp
  have "map_of cfg (Name (?fs ! Suc 0)) = Some (VStr ([''postgres://x'', []] ! Suc 0))"
    using v l1 d1 by blast
  then have v1: "map_of cfg ''Table'' = Some (VStr [])"
    by simp
  have p': "map fst (prompts w') = [''Enter DSN (string)'', ''Enter Table (string)'']"
    using p by (simp add: world0_def field_label_def string_type_def)
  have k': "keys cfg = {''DSN'', ''Table''}" using k by simp
  show ?thesis
    by (rule exI [of _ cfg], rule exI [of _ w']) (simp add: r p' k' v0 v1)
qed

text \<open>
  Claim C5. For a name the registry does not know, \<^verbatim>\<open>readIntegrationFields\<close> fails with the
  error \<^verbatim>\<open>integration not found in registry\<close> and leaves the process state as it was: no
  prompt has been issued and no answer taken.
\<close>

theorem readIntegrationFields_not_found:
  assumes "(if isSource then registry_GetSource reg method
            else registry_GetDestination reg method) = None"
  shows "readIntegrationFields reg method isSource w =
           (Inl (ErrNew ''integration not found in registry''), w)"
  using assms by (simp add: readIntegrationFields_def)

theorem readIntegrationFields_not_found_witness:
  "readIntegrationFields example_registry ''Parquet'' True (world0\<lparr>inputs := [Entered ''x'']\<rparr>) =
     (Inl (ErrNew ''integration not found in registry''), world0\<lparr>inputs := [Entered ''x'']\<rparr>)"
proof -
  have "(if True then registry_GetSource example_registry ''Parquet''
         else registry_GetDestination example_registry ''Parquet'') = None"
    by (simp add: registry_GetSource_def example_registry_def)
  then show ?thesis by (rule readIntegrationFields_not_found)
qed

lemma read_fields_error_shape:
  "read_fields fs cfg w = (Inl e, w') \<Longrightarrow> \<exists>msg e'. e = ErrWrap msg e'"
  by (induction fs arbitrary: cfg w) (auto split: prod.splits sum.splits)

text \<open>
  Claim C4 says that an integration with a slice, map or nested struct field is refused with
  a schema error. The source only tests whether the instance is a struct: the \<^verbatim>\<open>Kafka\<close>
  source, whose only field is a slice, is prompted for and its answer stored as text.
\<close>

theorem schema_error_counterexample:
  "readIntegrationFields example_registry ''Kafka'' True (world0\<lparr>inputs := [Entered ''b1:9092'']\<rparr>) =
     (Inr [(''Brokers'', VStr ''b1:9092'')],
      world0\<lparr>inputs := [], prompts := [(''Enter Brokers ([]string)'', Inr ''b1:9092'')]\<rparr>)"
  by (simp add: readIntegrationFields_def registry_GetSource_def example_registry_def
      kafka_source_def world0_def prompt_Run_def answer_def field_label_def Let_def)

text \<open>
  Claim C4, amended. For a registered integration, \<^verbatim>\<open>readIntegrationFields\<close> fails with the
  error \<^verbatim>\<open>integration is not a struct\<close> exactly when the instance, after one pointer
  dereference, is not a struct, and then it has issued no prompt. The kinds of a struct's
  fields play no part.
\<close>

theorem schema_error_iff_not_struct:
  assumes "(if isSource then registry_GetSource reg method
            else registry_GetDestination reg method) = Some integ"
  shows "(fst (readIntegrationFields reg method isSource w) =
            Inl (ErrNew ''integration is not a struct'')) = (Kind (indirect integ) \<noteq> KStruct)
       \<and> (Kind (indirect integ) \<noteq> KStruct \<longrightarrow>
            snd (readIntegrationFields reg method isSource w) = w)"
proof (cases "Kind (indirect integ) = KStruct")
  case True
  have "fst (read_fields (fields_of (indirect integ)) [] w) \<noteq> Inl (ErrNew ''integration is not a struct'')"
  proof
    assume a: "fst (read_fields (fields_of (indirect integ)) [] w) = Inl (ErrNew ''integration is not a struct'')"
    obtain r w' where rw: "read_fields (fields_of (indirect integ)) [] w = (r, w')"
      by (cases "read_fields (fields_of (indirect integ)) [] w")
    with a have "read_fields (fields_of (indirect integ)) [] w = (Inl (ErrNew ''integration is not a struct''), w')"
      by simp
    from read_fields_error_shape [OF this] show False by simp
  qed
  then show ?thesis using assms True by (simp add: readIntegrationFields_def)
next
  case False
  then show ?thesis using assms by (simp add: readIntegrationFields_def)
qed

theorem schema_error_iff_not_struct_witness:
  "(fst (readIntegrationFields (example_registry\<lparr>sources := [(''Bad'', ISlice)]\<rparr>) ''Bad'' True
           (world0\<lparr>inputs := [Entered ''x'']\<rparr>)) = Inl (ErrNew ''integration is not a struct''))
   \<and> snd (readIntegrationFields (example_registry\<lparr>sources := [(''Bad'', ISlice)]\<rparr>) ''Bad'' True
           (world0\<lparr>inputs := [Entered ''x'']\<rparr>)) = world0\<lparr>inputs := [Entered ''x'']\<rparr>
   \<and> fst (readIntegrationFields example_registry ''Kafka'' True
           (world0\<lparr>inputs := [Entered ''x'']\<rparr>)) \<noteq> Inl (ErrNew ''integration is not a struct'')"
proof -
  have a: "(if True then registry_GetSource (example_registry\<lparr>sources := [(''Bad'', ISlice)]\<rparr>) ''Bad''
            else registry_GetDestination (example_registry\<lparr>sources := [(''Bad'', ISlice)]\<rparr>) ''Bad'')
           = Some ISlice"
    by (simp add: registry_GetSource_def)
  have b: "(if True then registry_GetSource example_registry ''Kafka''
            else registry_GetDestination example_registry ''Kafka'') = Some kafka_source"
    by (simp add: registry_GetSource_def example_registry_def)
  show ?thesis
    using schema_error_iff_not_struct [OF a, of "world0\<lparr>inputs := [Entered ''x'']\<rparr>"]
      schema_error_iff_not_struct [OF b, of "world0\<lparr>inputs := [Entered ''x'']\<rparr>"]
    by (simp add: kafka_source_def)
qed

section \<open>The collection as a whole\<close>

lemma Setup_collect:
  "SetupConfigInteractively reg w =
     (case collect_config reg w of
        (Inl e, w') \<Rightarrow> (Inl e, w')
      | (Inr cfg, w') \<Rightarrow> (Inr cfg, saveConfig cfg w'))"
  by (simp add: SetupConfigInteractively_def collect_config_def Let_def
      split: prod.splits sum.splits)

lemma issued_same [simp]: "issued w w = []"
  by (simp add: issued_def)

lemma quiet_prompt: "quiet w (prompt_Run label w)"
  by (simp add: quiet_def prompt_Run_def issued_def Let_def answer_def
      split: list.splits resp.splits)

lemma quiet_select: "quiet w (select_Run label items w)"
  by (simp add: quiet_def select_Run_def issued_def Let_def answer_def
      split: list.splits resp.splits)

lemma quiet_return: "quiet w (Inr x, w)"
  by (simp add: quiet_def)

lemma quiet_fail: "quiet w (Inl e, w)"
  by (simp add: quiet_def)

lemma quiet_bind:
  assumes f: "quiet w (f w)"
    and g: "\<And>x w1. f w = (Inr x, w1) \<Longrightarrow> quiet w1 (g x w1)"
  shows "quiet w (case f w of (Inl e, w1) \<Rightarrow> (Inl (h e), w1) | (Inr x, w1) \<Rightarrow> g x w1)"
proof (cases "f w")
  case (Pair r w1)
  show ?thesis
  proof (cases r)
    case (Inl e)
    then show ?thesis using f Pair by (simp add: quiet_def)
  next
    case (Inr x)
    have q1: "quiet w (Inr x, w1)" using f Pair Inr by simp
    have q2: "quiet w1 (g x w1)" using Pair Inr by (intro g) simp
    have p1: "prompts w1 = prompts w @ issued w w1"
      using q1 by (simp add: quiet_def)
    have p2: "prompts (snd (g x w1)) = prompts w1 @ issued w1 (snd (g x w1))"
      using q2 by (simp add: quiet_def)
    have ok1: "\<not> list_ex (\<lambda>p. isl (snd p)) (issued w w1)"
      using q1 by (simp add: quiet_def)
    have iss: "issued w (snd (g x w1)) = issued w w1 @ issued w1 (snd (g x w1))"
    proof -
      have "prompts (snd (g x w1)) = prompts w @ (issued w w1 @ issued w1 (snd (g x w1)))"
        using p1 p2 by (metis append_assoc)
      then show ?thesis by (simp add: issued_def [of w "snd (g x w1)"])
    qed
    show ?thesis
      using q1 q2 ok1 p1 p2 Pair Inr by (simp add: quiet_def iss)
  qed
qed


lemma quiet_read_fields: "quiet w (read_fields fs cfg w)"
proof (induction fs arbitrary: cfg w)
  case Nil
  show ?case by (simp add: quiet_return)
next
  case (Cons f fs)
  show ?case
    unfolding read_fields.simps by (intro quiet_bind quiet_prompt Cons.IH)
qed

lemma quiet_readIntegrationFields: "quiet w (readIntegrationFields reg method isSource w)"
  by (simp add: readIntegrationFields_def Let_def quiet_fail quiet_read_fields
      split: option.splits)

lemma quiet_read_rules: "quiet w (read_rules ruleType rules w)"
proof (induction ruleType rules w rule: read_rules.induct)
  case (1 ruleType rules w)
  have "quiet w (case prompt_Run (rules_label ruleType) w of
          (Inl err, w') \<Rightarrow> (Inl (ErrWrap (''failed to read '' @ ruleType) err), w')
        | (Inr line, w') \<Rightarrow>
            if line = [] then (Inr rules, w')
            else read_rules ruleType (rules @ line @ [CHR 0x0A]) w')"
  proof (intro quiet_bind quiet_prompt)
    fix line w1
    assume run: "prompt_Run (rules_label ruleType) w = (Inr line, w1)"
    show "quiet w1 (if line = [] then (Inr rules, w1)
                    else read_rules ruleType (rules @ line @ [CHR 0x0A]) w1)"
    proof (cases "line = []")
      case True
      then show ?thesis by (simp add: quiet_return)
    next
      case False
      then show ?thesis using "1.IH" [OF run [symmetric] refl False] by simp
    qed
  qed
  then show ?case by (subst read_rules.simps)
qed

lemma quiet_readRules: "quiet w (readRules ruleType w)"
  unfolding readRules_def by (rule quiet_read_rules)

lemma quiet_readErrorHandlingConfig: "quiet w (readErrorHandlingConfig w)"
  unfolding readErrorHandlingConfig_def
  by (intro quiet_bind quiet_prompt quiet_return)

lemma quiet_collect_config: "quiet w (collect_config reg w)"
  unfolding collect_config_def
  by (intro quiet_bind quiet_select quiet_readIntegrationFields quiet_readRules
      quiet_readErrorHandlingConfig quiet_return)

lemma saveConfig_prompts: "prompts (saveConfig cfg w) = prompts w"
  by (simp add: saveConfig_def viper_WriteConfigAs_def Let_def split: option.splits prod.splits)

text \<open>
  Claim C6. Collection is all or nothing. In every run of \<^verbatim>\<open>SetupConfigInteractively\<close>, if
  any prompt issued (a method selection, an integration field, a rule line, the error-handling
  strategy) failed, the result is an error; and whenever the result is an error (no document
  is returned), the settings store, the files and the printed output are what they were
  before the call, so \<^verbatim>\<open>saveConfig\<close> was not reached.
\<close>

theorem setup_all_or_nothing:
  assumes "SetupConfigInteractively reg w = (r, w')"
  shows "prompts w' = prompts w @ issued w w'
       \<and> (list_ex (\<lambda>p. isl (snd p)) (issued w w') \<longrightarrow> isl r)
       \<and> (isl r \<longrightarrow> store w' = store w \<and> files w' = files w \<and> out w' = out w)"
proof (cases "collect_config reg w")
  case (Pair rc wc)
  have q: "quiet w (rc, wc)"
    using quiet_collect_config [of w reg] Pair by simp
  show ?thesis
  proof (cases rc)
    case (Inl e)
    then have "r = Inl e" "w' = wc"
      using assms Pair by (simp_all add: Setup_collect)
    then show ?thesis using q by (simp add: quiet_def)
  next
    case (Inr cfg)
    then have r: "r = Inr cfg" and w': "w' = saveConfig cfg wc"
      using assms Pair by (simp_all add: Setup_collect)
    have "issued w w' = issued w wc"
      by (simp add: issued_def w' saveConfig_prompts)
    then show ?thesis using q r Inr by (simp add: quiet_def w' saveConfig_prompts)
  qed
qed


lemma example_abort_run:
  "SetupConfigInteractively example_registry
     (world0\<lparr>inputs := [Entered ''CSV'', Failed ''^C'', Entered ''SQL'']\<rparr>) =
   (Inl (ErrWrap ''failed to get fields for input method''
          (ErrWrap ''failed to get value for field Path'' (ErrPrompt ''^C''))),
    world0\<lparr>inputs := [Entered ''SQL''],
           prompts := [(''Select Input Method'', Inr ''CSV''),
                       (''Enter Path (string)'', Inl (ErrPrompt ''^C''))]\<rparr>)"
  by (simp add: SetupConfigInteractively_def example_registry_def world0_def
      getRegisteredDataSources_def getRegisteredDataDestinations_def
      select_Run_def prompt_Run_def answer_def readIntegrationFields_def registry_GetSource_def
      csv_source_def string_type_def field_label_def Let_def)

theorem setup_all_or_nothing_witness:
  "isl (fst (SetupConfigInteractively example_registry
          (world0\<lparr>inputs := [Entered ''CSV'', Failed ''^C'', Entered ''SQL'']\<rparr>)))
   \<and> store (snd (SetupConfigInteractively example_registry
          (world0\<lparr>inputs := [Entered ''CSV'', Failed ''^C'', Entered ''SQL'']\<rparr>))) = fresh_viper
   \<and> files (snd (SetupConfigInteractively example_registry
          (world0\<lparr>inputs := [Entered ''CSV'', Failed ''^C'', Entered ''SQL'']\<rparr>))) ''config.yaml''
       = None"
  using setup_all_or_nothing [OF example_abort_run]
  unfolding example_abort_run by (simp add: world0_def)

section \<open>A failing write\<close>

lemma wf_prompt:
  "prompt_Run label (w\<lparr>write_fault := f\<rparr>) = with_fault f (prompt_Run label w)"
  by (simp add: prompt_Run_def with_fault_def Let_def)

lemma wf_select:
  "select_Run label items (w\<lparr>write_fault := f\<rparr>) = with_fault f (select_Run label items w)"
  by (simp add: select_Run_def with_fault_def Let_def)

lemma wf_read_fields:
  "read_fields fs cfg (w\<lparr>write_fault := f\<rparr>) = with_fault f (read_fields fs cfg w)"
proof (induction fs arbitrary: cfg w)
  case Nil
  show ?case by (simp add: with_fault_def)
next
  case (Cons x fs)
  show ?case
    by (cases "prompt_Run (field_label x) w")
       (simp add: wf_prompt Cons.IH with_fault_def split: sum.splits)
qed

lemma wf_readIntegrationFields:
  "readIntegrationFields reg method isSource (w\<lparr>write_fault := f\<rparr>) =
     with_fault f (readIntegrationFields reg method isSource w)"
  by (simp add: readIntegrationFields_def Let_def wf_read_fields split: option.splits)
     (simp add: with_fault_def)

lemma wf_read_rules:
  "read_rules ruleType rules (w\<lparr>write_fault := f\<rparr>) = with_fault f (read_rules ruleType rules w)"
proof (induction ruleType rules w rule: read_rules.induct)
  case (1 ruleType rules w)
  obtain r w1 where run: "prompt_Run (rules_label ruleType) w = (r, w1)"
    by (cases "prompt_Run (rules_label ruleType) w")
  then have run': "prompt_Run (rules_label ruleType) (w\<lparr>write_fault := f\<rparr>) =
      (r, w1\<lparr>write_fault := f\<rparr>)"
    by (simp add: wf_prompt with_fault_def)
  show ?case
  proof (cases r)
    case (Inl e)
    then show ?thesis
      using run run'
      by (simp add: read_rules.simps [of ruleType rules w]
          read_rules.simps [of ruleType rules "w\<lparr>write_fault := f\<rparr>"] with_fault_def)
  next
    case (Inr line)
    show ?thesis
    proof (cases "line = []")
      case True
      then show ?thesis
        using run run' Inr
        by (simp add: read_rules.simps [of ruleType rules w]
            read_rules.simps [of ruleType rules "w\<lparr>write_fault := f\<rparr>"] with_fault_def)
    next
      case False
      have ih: "read_rules ruleType (rules @ line @ [CHR 0x0A]) (w1\<lparr>write_fault := f\<rparr>) =
          with_fault f (read_rules ruleType (rules @ line @ [CHR 0x0A]) w1)"
        using "1.IH" [OF run [symmetric] Inr False] .
      show ?thesis
        using run run' Inr False ih
        by (simp add: read_rules.simps [of ruleType rules w]
            read_rules.simps [of ruleType rules "w\<lparr>write_fault := f\<rparr>"])
    qed
  qed
qed

lemma wf_readRules:
  "readRules ruleType (w\<lparr>write_fault := f\<rparr>) = with_fault f (readRules ruleType w)"
  unfolding readRules_def by (rule wf_read_rules)

lemma wf_readErrorHandlingConfig:
  "readErrorHandlingConfig (w\<lparr>write_fault := f\<rparr>) = with_fault f (readErrorHandlingConfig w)"
  by (simp add: readErrorHandlingConfig_def wf_prompt with_fault_def
      split: prod.splits sum.splits)

lemma wf_collect_config:
  "collect_config reg (w\<lparr>write_fault := f\<rparr>) = with_fault f (collect_config reg w)"
  by (simp add: collect_config_def wf_select wf_readIntegrationFields wf_readRules
      wf_readErrorHandlingConfig with_fault_def split: prod.splits sum.splits)


lemma saveConfig_faulty:
  "write_fault w = Some (e, left) \<Longrightarrow>
   out (saveConfig cfg w) = out w @ [''Failed to save configuration: '' @ e]"
  by (simp add: saveConfig_def viper_WriteConfigAs_def Let_def)

lemma saveConfig_store:
  "store (saveConfig cfg w) = fold (\<lambda>(key, v). viper_Set key v) cfg (store w)"
  by (simp add: saveConfig_def viper_WriteConfigAs_def Let_def split: option.splits prod.splits)

text \<open>
  Claim C7. A failing write is reported and nothing more. If writing the settings file fails
  with the error \<open>e\<close>, then whenever the same session with a working file system returns the
  document \<open>cfg\<close>, the session with the failing write returns that same document without an
  error; the failure is printed, and the settings store holds what it would hold had the write
  succeeded.
\<close>

theorem persist_failure_not_fatal:
  assumes fault: "write_fault w = Some (e, left)"
    and ok: "SetupConfigInteractively reg (w\<lparr>write_fault := None\<rparr>) = (Inr cfg, w1)"
  shows "\<exists>w2. SetupConfigInteractively reg w = (Inr cfg, w2)
       \<and> out w2 = out w @ [''Failed to save configuration: '' @ e]
       \<and> store w2 = store w1"
proof -
  let ?w0 = "w\<lparr>write_fault := None\<rparr>"
  obtain rc wc0 where c0: "collect_config reg ?w0 = (rc, wc0)"
    by (cases "collect_config reg ?w0")
  have rc: "rc = Inr cfg" and w1: "w1 = saveConfig cfg wc0"
    using ok c0 by (auto simp: Setup_collect split: sum.splits)
  have q: "quiet ?w0 (rc, wc0)"
    using quiet_collect_config [of ?w0 reg] c0 by simp
  have w: "?w0\<lparr>write_fault := Some (e, left)\<rparr> = w"
    using fault by simp
  let ?wc = "wc0\<lparr>write_fault := Some (e, left)\<rparr>"
  have c: "collect_config reg w = (Inr cfg, ?wc)"
    using wf_collect_config [where reg = reg and w = ?w0 and f = "Some (e, left)"] c0 rc
    by (simp only: w) (simp add: with_fault_def)
  have run: "SetupConfigInteractively reg w = (Inr cfg, saveConfig cfg ?wc)"
    by (simp add: Setup_collect c)
  have o: "out (saveConfig cfg ?wc) = out w @ [''Failed to save configuration: '' @ e]"
    using q by (simp add: saveConfig_faulty quiet_def)
  have s: "store (saveConfig cfg ?wc) = store w1"
    by (simp add: saveConfig_store w1)
  show ?thesis using run o s by simp
qed

lemma example_run:
  "fst (SetupConfigInteractively example_registry (world0\<lparr>inputs := example_answers\<rparr>)) =
     Inr example_doc"
  by (simp add: SetupConfigInteractively_def example_registry_def world0_def example_answers_def
      example_doc_def getRegisteredDataSources_def getRegisteredDataDestinations_def
      select_Run_def prompt_Run_def answer_def readIntegrationFields_def registry_GetSource_def
      registry_GetDestination_def csv_source_def sql_destination_def
      string_type_def field_label_def readRules_def read_rules.simps rules_label_def
      readErrorHandlingConfig_def Let_def)

theorem persist_failure_not_fatal_witness:
  "\<exists>w2. SetupConfigInteractively example_registry
           (world0\<lparr>inputs := example_answers,
                   write_fault := Some (''permission denied'', None)\<rparr>) = (Inr example_doc, w2)
       \<and> out w2 = [''Failed to save configuration: permission denied'']"
proof -
  let ?w = "world0\<lparr>inputs := example_answers, write_fault := Some (''permission denied'', None)\<rparr>"
  have w0: "?w\<lparr>write_fault := None\<rparr> = world0\<lparr>inputs := example_answers\<rparr>"
    by (simp add: world0_def)
  have fault: "write_fault ?w = Some (''permission denied'', None)"
    by simp
  have ok: "SetupConfigInteractively example_registry (?w\<lparr>write_fault := None\<rparr>) =
      (Inr example_doc,
       snd (SetupConfigInteractively example_registry (world0\<lparr>inputs := example_answers\<rparr>)))"
    unfolding w0 using example_run by (simp add: prod_eq_iff)
  obtain w2 where r: "SetupConfigInteractively example_registry ?w = (Inr example_doc, w2)"
    and o: "out w2 = out ?w @ [''Failed to save configuration: '' @ ''permission denied'']"
    using persist_failure_not_fatal [OF fault ok] by auto
  have o': "out w2 = [''Failed to save configuration: permission denied'']"
    using o by (simp add: world0_def)
  show ?thesis
    by (rule exI [of _ w2]) (simp add: r o')
qed

section \<open>The keys of the document\<close>

lemma collect_config_keys:
  "collect_config reg w = (Inr cfg, w') \<Longrightarrow>
   map fst cfg = [''inputMethod'', ''outputMethod'', ''inputconfig'', ''outputconfig'',
                  ''validations'', ''transformations'', ''errorhandling'']"
  by (auto simp: collect_config_def split: prod.splits sum.splits)

lemma keys_override_Set:
  "keys (override (viper_Set k v s)) = insert (ToLower k) (keys (override s))"
  by (simp add: viper_Set_def keys_update)

lemma keys_override_fold_Set:
  "keys (override (fold (\<lambda>(key, v). viper_Set key v) cfg s)) =
     keys (override s) \<union> ToLower ` keys cfg"
proof (induction cfg arbitrary: s)
  case Nil
  show ?case by (simp add: keys_def)
next
  case (Cons kv cfg)
  obtain k v where kv: "kv = (k, v)" by (cases kv)
  have "keys ((k, v) # cfg) = insert k (keys cfg)"
    by (simp add: keys_def)
  then show ?case by (simp add: kv Cons.IH keys_override_Set)
qed

text \<open>
  Claim C8 names \<^verbatim>\<open>inputConfig\<close>, \<^verbatim>\<open>outputConfig\<close> and \<^verbatim>\<open>errorHandling\<close> as keys of the
  document. The document assembled in the example session has none of them: the three
  compound names are written in lower case throughout the source.
\<close>

theorem document_keys_counterexample:
  "fst (SetupConfigInteractively example_registry (world0\<lparr>inputs := example_answers\<rparr>)) =
     Inr example_doc
   \<and> ''inputConfig'' \<notin> keys example_doc \<and> ''outputConfig'' \<notin> keys example_doc
   \<and> ''errorHandling'' \<notin> keys example_doc
   \<and> ''inputconfig'' \<in> keys example_doc \<and> ''outputconfig'' \<in> keys example_doc
   \<and> ''errorhandling'' \<in> keys example_doc"
  by (simp add: example_run) (simp add: example_doc_def keys_def)

text \<open>
  Claim C8, amended. The top-level keys of every document that \<^verbatim>\<open>SetupConfigInteractively\<close>
  assembles and hands to the store, and of every document that \<^verbatim>\<open>LoadConfig\<close> returns, are
  exactly \<^verbatim>\<open>inputMethod\<close>, \<^verbatim>\<open>outputMethod\<close>, \<^verbatim>\<open>inputconfig\<close>, \<^verbatim>\<open>outputconfig\<close>, \<^verbatim>\<open>validations\<close>,
  \<^verbatim>\<open>transformations\<close> and \<^verbatim>\<open>errorhandling\<close>; the store, whose keys are case-insensitive,
  holds each of them under its lower-cased name.
\<close>

theorem document_keys:
  "(SetupConfigInteractively reg w = (Inr cfg, w') \<longrightarrow>
      keys cfg = {''inputMethod'', ''outputMethod'', ''inputconfig'', ''outputconfig'',
                  ''validations'', ''transformations'', ''errorhandling''}
      \<and> ToLower ` keys cfg \<subseteq> keys (override (store w')))
   \<and> (LoadConfig json path v = (Inr cfg2, v') \<longrightarrow>
      keys cfg2 = {''inputMethod'', ''outputMethod'', ''inputconfig'', ''outputconfig'',
                   ''validations'', ''transformations'', ''errorhandling''})"
proof (intro conjI impI)
  assume run: "SetupConfigInteractively reg w = (Inr cfg, w')"
  obtain rc wc where c: "collect_config reg w = (rc, wc)"
    by (cases "collect_config reg w")
  have rc: "rc = Inr cfg" and w': "w' = saveConfig cfg wc"
    using run c by (auto simp: Setup_collect split: sum.splits)
  have "map fst cfg = [''inputMethod'', ''outputMethod'', ''inputconfig'', ''outputconfig'',
                  ''validations'', ''transformations'', ''errorhandling'']"
    using c rc by (intro collect_config_keys [of reg w cfg wc]) simp
  then have "set (map fst cfg) = set [''inputMethod'', ''outputMethod'', ''inputconfig'',
      ''outputconfig'', ''validations'', ''transformations'', ''errorhandling'']"
    by (rule arg_cong)
  then show "keys cfg = {''inputMethod'', ''outputMethod'', ''inputconfig'', ''outputconfig'',
                  ''validations'', ''transformations'', ''errorhandling''}"
    by (simp add: keys_def)
  show "ToLower ` keys cfg \<subseteq> keys (override (store w'))"
    by (simp add: w' saveConfig_store keys_override_fold_Set)
next
  assume "LoadConfig json path v = (Inr cfg2, v')"
  then show "keys cfg2 = {''inputMethod'', ''outputMethod'', ''inputconfig'', ''outputconfig'',
                   ''validations'', ''transformations'', ''errorhandling''}"
    by (auto simp: LoadConfig_def keys_def split: prod.splits option.splits)
qed


lemma ToLower_simps:
  "ToLower [] = []"
  "ToLower (c # cs) = lower_char c # ToLower cs"
  by (simp_all add: ToLower_def)

lemma example_load:
  "fst (LoadConfig no_json ''config.yaml'' world_with_file) =
     Inr [(''inputMethod'', VStr ''CSV''), (''outputMethod'', VStr ''SQL''),
          (''inputconfig'', VMap [(''path'', VStr ''/in.csv'')]),
          (''outputconfig'', VMap []),
          (''errorhandling'', VMap []),
          (''validations'', VStr ''not_null(id)''),
          (''transformations'', VStr [])]"
  by (simp add: LoadConfig_def world_with_file_def world0_def stored_file_def
      viper_SetConfigFile_def viper_ReadInConfig_def fresh_viper_def
      viper_GetString_def viper_GetStringMap_def viper_Get_def ToLower_simps lower_char_def
      Let_def)

theorem document_keys_witness:
  "(\<exists>w'. SetupConfigInteractively example_registry (world0\<lparr>inputs := example_answers\<rparr>) =
           (Inr example_doc, w')
         \<and> ''inputconfig'' \<in> keys (override (store w')))
   \<and> keys example_doc = {''inputMethod'', ''outputMethod'', ''inputconfig'', ''outputconfig'',
                  ''validations'', ''transformations'', ''errorhandling''}
   \<and> (\<exists>cfg2 w2. LoadConfig no_json ''config.yaml'' world_with_file = (Inr cfg2, w2)
         \<and> keys cfg2 = {''inputMethod'', ''outputMethod'', ''inputconfig'', ''outputconfig'',
                  ''validations'', ''transformations'', ''errorhandling''})"
proof -
  let ?w = "world0\<lparr>inputs := example_answers\<rparr>"
  let ?w' = "snd (SetupConfigInteractively example_registry ?w)"
  let ?l = "LoadConfig no_json ''config.yaml'' world_with_file"
  have run: "SetupConfigInteractively example_registry ?w = (Inr example_doc, ?w')"
    using example_run by (simp add: prod_eq_iff)
  obtain cfg2 where load: "?l = (Inr cfg2, snd ?l)"
    using example_load by (simp add: prod_eq_iff)
  note setup_part = document_keys [where reg = example_registry and w = ?w
      and cfg = example_doc and w' = ?w', THEN conjunct1, rule_format, OF run]
  note load_part = document_keys [where json = no_json and path = "''config.yaml''"
      and v = world_with_file and ?cfg2.0 = cfg2 and v' = "snd ?l", THEN conjunct2, rule_format]
  have a: "keys example_doc = {''inputMethod'', ''outputMethod'', ''inputconfig'',
        ''outputconfig'', ''validations'', ''transformations'', ''errorhandling''}"
    using setup_part by (rule conjunct1)
  have b: "ToLower ` keys example_doc \<subseteq> keys (override (store ?w'))"
    using setup_part by (rule conjunct2)
  have c: "keys cfg2 = {''inputMethod'', ''outputMethod'', ''inputconfig'',
        ''outputconfig'', ''validations'', ''transformations'', ''errorhandling''}"
    using load by (rule load_part)
  have "''inputconfig'' \<in> keys example_doc"
    unfolding a by simp
  then have "ToLower ''inputconfig'' \<in> keys (override (store ?w'))"
    using b by (meson imageI subsetD)
  then have d: "''inputconfig'' \<in> keys (override (store ?w'))"
    by (simp add: ToLower_simps lower_char_def)
  show ?thesis
    using run a c d load by (intro conjI exI [of _ ?w'] exI [of _ cfg2] exI [of _ "snd ?l"])
qed

section \<open>The simpler variant and the global store\<close>

text \<open>
  Claim C9. What \<^verbatim>\<open>saveConfig\<close> writes is not determined by its argument: the keys of the
  document are set on the process-global store and the whole store is written. Two calls in
  a row, the first with the key \<^verbatim>\<open>owner\<close>, the second with a document that lacks it: the
  file written by the second call still binds \<^verbatim>\<open>owner\<close> to the value of the first. In the
  simpler variant, which always sets its two keys, the file written after a settings file was
  loaded likewise carries the keys of that file which the document does not have.
\<close>

theorem saveConfig_writes_whole_store:
  "map_of [(''owner'', VStr ''ops'')] ''owner'' = Some (VStr ''ops'')
   \<and> ''owner'' \<notin> keys [(''inputmethod'', VStr ''CSV'')]
   \<and> files (saveConfig [(''inputmethod'', VStr ''CSV'')]
              (saveConfig [(''owner'', VStr ''ops'')] world0)) ''config.yaml'' =
       Some [(''owner'', VStr ''ops''), (''inputmethod'', VStr ''CSV'')]
   \<and> files (main_saveConfig [(''inputMethod'', ''Kafka Queue'')]
              (snd (main_LoadConfig ''config.yaml'' world_with_file))) ''config.yaml'' =
       Some [(''inputmethod'', VStr ''Kafka Queue''),
             (''outputmethod'', VStr []),
             (''inputconfig'', VMap [(''path'', VStr ''/in.csv'')]),
             (''validations'', VStr ''not_null(id)''),
             (''owner'', VStr ''ops'')]"
  by (simp add: saveConfig_def main_saveConfig_def main_LoadConfig_def viper_WriteConfigAs_def
      viper_ReadInConfig_def viper_SetConfigFile_def viper_AllSettings_def viper_Set_def
      world_with_file_def world0_def fresh_viper_def stored_file_def index_str_def keys_def
      ToLower_simps lower_char_def Let_def)

section \<open>From the store to the file and back\<close>

lemma lower_char_idem: "lower_char (lower_char c) = lower_char c"
  by (simp add: lower_char_def)

lemma ToLower_idem: "ToLower (ToLower s) = ToLower s"
  by (simp add: ToLower_def lower_char_idem)

lemma update_new: "k \<notin> fst ` set al \<Longrightarrow> AList.update k v al = al @ [(k, v)]"
  by (induction al) auto

lemma text_map_Nil: "text_map []"
  by (simp add: text_map_def)

lemma text_map_update: "text_map m \<Longrightarrow> text_map (AList.update k (VStr s) m)"
proof -
  have "list_all P m \<Longrightarrow> P (k, v) \<Longrightarrow> list_all P (AList.update k v m)" for P and v :: val
    by (induction m) auto
  then show "text_map m \<Longrightarrow> text_map (AList.update k (VStr s) m)"
    by (simp add: text_map_def distinct_update)
qed

lemma text_map_value: "text_map m \<Longrightarrow> (k, v) \<in> set m \<Longrightarrow> \<exists>s. v = VStr s"
  by (cases v) (auto simp: text_map_def list_all_iff)

lemma text_map_Cons:
  "text_map ((k, v) # m) = ((\<exists>s. v = VStr s) \<and> k \<notin> keys m \<and> text_map m)"
  by (auto simp: text_map_def keys_def split: val.splits)

lemma copy_text_map:
  "text_map m \<Longrightarrow>
   copyAndInsensitiviseMap nm m = fold (\<lambda>(k, v). AList.update (ToLower k) v) m nm"
proof (induction m arbitrary: nm)
  case Nil
  show ?case by simp
next
  case (Cons kv m)
  obtain k v where kv: "kv = (k, v)" by (cases kv)
  obtain s where v: "v = VStr s" and m: "text_map m"
    using Cons.prems by (auto simp: kv text_map_Cons)
  show ?case by (simp add: kv v Cons.IH [OF m])
qed

lemma text_map_fold:
  "text_map m \<Longrightarrow> text_map nm \<Longrightarrow>
   text_map (fold (\<lambda>(k, v). AList.update (ToLower k) v) m nm)"
proof (induction m arbitrary: nm)
  case Nil
  then show ?case by simp
next
  case (Cons kv m)
  obtain k v where kv: "kv = (k, v)" by (cases kv)
  obtain s where v: "v = VStr s" and m: "text_map m"
    using Cons.prems(1) by (auto simp: kv text_map_Cons)
  show ?case
    using Cons.IH [OF m text_map_update [OF Cons.prems(2)]] by (simp add: kv v)
qed

lemma keys_fold_lower:
  "keys (fold (\<lambda>(k, v). AList.update (ToLower k) v) m nm) = keys nm \<union> ToLower ` keys m"
proof (induction m arbitrary: nm)
  case Nil
  show ?case by (simp add: keys_def)
next
  case (Cons kv m)
  obtain k v where kv: "kv = (k, v)" by (cases kv)
  have "keys ((k, v) # m) = insert k (keys m)"
    by (simp add: keys_def)
  then show ?case by (simp add: kv Cons.IH keys_update)
qed

lemma map_of_fold_lower:
  "map_of (fold (\<lambda>(k, v). AList.update (ToLower k) v) m nm) x =
     (case map_of (rev (map (\<lambda>(k, v). (ToLower k, v)) m)) x of
        None \<Rightarrow> map_of nm x
      | Some v \<Rightarrow> Some v)"
  by (induction m arbitrary: nm) (auto simp: update_conv' map_add_def split: option.splits)

lemma map_of_rev_lower:
  assumes "distinct (map fst m)" and "k \<in> keys m"
    and "\<forall>k'\<in>keys m. ToLower k' = ToLower k \<longrightarrow> k' = k"
  shows "map_of (rev (map (\<lambda>(k, v). (ToLower k, v)) m)) (ToLower k) = map_of m k"
  using assms
proof (induction m)
  case Nil
  then show ?case by (simp add: keys_def)
next
  case (Cons kv m)
  obtain k0 v0 where kv: "kv = (k0, v0)" by (cases kv)
  have d: "distinct (map fst m)" and k0: "k0 \<notin> keys m"
    using Cons.prems(1) by (simp_all add: kv keys_def)
  have u: "\<forall>k'\<in>keys m. ToLower k' = ToLower k \<longrightarrow> k' = k"
    using Cons.prems(3) by (simp add: kv keys_def)
  show ?case
  proof (cases "k0 = k")
    case True
    have "ToLower k \<notin> fst ` set (map (\<lambda>(k, v). (ToLower k, v)) m)"
    proof
      assume "ToLower k \<in> fst ` set (map (\<lambda>(k, v). (ToLower k, v)) m)"
      then obtain k' where "k' \<in> keys m" "ToLower k' = ToLower k"
        by (force simp: keys_def)
      then have "k' = k" using u by simp
      then show False using \<open>k' \<in> keys m\<close> k0 True by simp
    qed
    then have "map_of (rev (map (\<lambda>(k, v). (ToLower k, v)) m)) (ToLower k) = None"
      by (simp add: map_of_eq_None_iff)
    then show ?thesis by (simp add: kv True map_add_def)
  next
    case False
    then have km: "k \<in> keys m"
      using Cons.prems(2) by (simp add: kv keys_def)
    have ih: "map_of (rev (map (\<lambda>(k, v). (ToLower k, v)) m)) (ToLower k) = map_of m k"
      using d km u by (rule Cons.IH)
    obtain v where "map_of m k = Some v"
      using km by (auto simp: keys_def weak_map_of_SomeI dest!: weak_map_of_SomeI)
    then show ?thesis using ih False by (simp add: kv map_add_def)
  qed
qed

lemma lowered_copy:
  assumes "text_map m"
  shows "lowered m (copyAndInsensitiviseMap [] m)"
proof -
  have d: "distinct (map fst m)" using assms by (simp add: text_map_def)
  show ?thesis
    unfolding lowered_def copy_text_map [OF assms]
  proof (intro conjI ballI impI)
    show "keys (fold (\<lambda>(k, v). AList.update (ToLower k) v) m []) = ToLower ` keys m"
      by (simp only: keys_fold_lower) (simp add: keys_def)
  next
    fix k
    assume k: "k \<in> keys m" and u: "\<forall>k'\<in>keys m. ToLower k' = ToLower k \<longrightarrow> k' = k"
    have "map_of (rev (map (\<lambda>(k, v). (ToLower k, v)) m)) (ToLower k) = map_of m k"
      using d k u by (rule map_of_rev_lower)
    moreover obtain v where "map_of m k = Some v"
      using k by (auto simp: keys_def dest!: weak_map_of_SomeI)
    ultimately show "map_of (fold (\<lambda>(k, v). AList.update (ToLower k) v) m []) (ToLower k) =
        map_of m k"
      by (simp add: map_of_fold_lower)
  qed
qed

lemma read_fields_text_map:
  "text_map cfg \<Longrightarrow> read_fields fs cfg w = (Inr cfg', w') \<Longrightarrow> text_map cfg'"
proof (induction fs arbitrary: cfg w)
  case Nil
  then show ?case by simp
next
  case (Cons f fs)
  obtain r w1 where run: "prompt_Run (field_label f) w = (r, w1)"
    by (cases "prompt_Run (field_label f) w")
  show ?case
  proof (cases r)
    case (Inl e)
    then show ?thesis using Cons.prems(2) run by simp
  next
    case (Inr v)
    then have "read_fields fs (AList.update (Name f) (VStr v) cfg) w1 = (Inr cfg', w')"
      using Cons.prems(2) run by simp
    then show ?thesis
      using text_map_update [OF Cons.prems(1)] by (rule Cons.IH [rotated])
  qed
qed

lemma readIntegrationFields_text_map:
  "readIntegrationFields reg method isSource w = (Inr cfg, w') \<Longrightarrow> text_map cfg"
  by (auto simp: readIntegrationFields_def Let_def text_map_Nil
      split: option.splits if_splits dest: read_fields_text_map [rotated])

lemma readErrorHandlingConfig_shape:
  "readErrorHandlingConfig w = (Inr eh, w') \<Longrightarrow> \<exists>s. eh = [(''strategy'', VStr s)]"
  by (auto simp: readErrorHandlingConfig_def split: prod.splits sum.splits)

lemma collect_config_shape:
  assumes "collect_config reg w = (Inr cfg, w')"
  shows "\<exists>im om ic oc va tr st.
           cfg = [(''inputMethod'', VStr im), (''outputMethod'', VStr om),
                  (''inputconfig'', VMap ic), (''outputconfig'', VMap oc),
                  (''validations'', VStr va), (''transformations'', VStr tr),
                  (''errorhandling'', VMap [(''strategy'', VStr st)])]
         \<and> text_map ic \<and> text_map oc"
  using assms
  by (auto simp: collect_config_def split: prod.splits sum.splits
      dest!: readIntegrationFields_text_map readErrorHandlingConfig_shape)

lemma merge_over_Nil: "merge_over a [] = a"
  by (induction a) auto

lemma leaves_text_map: "text_map m \<Longrightarrow> leaves_map m = m"
proof (induction m)
  case Nil
  show ?case by simp
next
  case (Cons kv m)
  obtain k v where kv: "kv = (k, v)" by (cases kv)
  obtain s where v: "v = VStr s" and m: "text_map m"
    using Cons.prems by (auto simp: kv text_map_Cons)
  show ?case by (simp add: kv v Cons.IH [OF m])
qed

lemma text_map_copy: "text_map m \<Longrightarrow> text_map (copyAndInsensitiviseMap [] m)"
  by (simp add: copy_text_map text_map_fold text_map_Nil)

lemma copy_fixed:
  "text_map m \<Longrightarrow> \<forall>k\<in>keys m. ToLower k = k \<Longrightarrow> keys nm \<inter> keys m = {} \<Longrightarrow>
   copyAndInsensitiviseMap nm m = nm @ m"
proof (induction m arbitrary: nm)
  case Nil
  show ?case by simp
next
  case (Cons kv m)
  obtain k v where kv: "kv = (k, v)" by (cases kv)
  obtain s where v: "v = VStr s" and m: "text_map m" and km: "k \<notin> keys m"
    using Cons.prems(1) by (auto simp: kv text_map_Cons)
  have lk: "ToLower k = k" and lm: "\<forall>k\<in>keys m. ToLower k = k"
    using Cons.prems(2) by (simp_all add: kv keys_def)
  have knm: "k \<notin> fst ` set nm" and disj: "keys nm \<inter> keys m = {}"
    using Cons.prems(3) by (auto simp: kv keys_def)
  have disj': "keys (nm @ [(k, VStr s)]) \<inter> keys m = {}"
    using disj km by (auto simp: keys_def)
  have "copyAndInsensitiviseMap nm (kv # m) = copyAndInsensitiviseMap (nm @ [(k, VStr s)]) m"
    by (simp add: kv v lk update_new [OF knm])
  also have "\<dots> = (nm @ [(k, VStr s)]) @ m"
    using m lm disj' by (rule Cons.IH)
  finally show ?case by (simp add: kv v)
qed

lemma copy_idem:
  assumes "text_map m"
  shows "copyAndInsensitiviseMap [] (copyAndInsensitiviseMap [] m) = copyAndInsensitiviseMap [] m"
proof -
  let ?l = "copyAndInsensitiviseMap [] m"
  have "keys ?l = ToLower ` keys m"
    using lowered_copy [OF assms] by (simp add: lowered_def)
  then have "\<forall>k\<in>keys ?l. ToLower k = k"
    by (auto simp: ToLower_idem)
  then have "copyAndInsensitiviseMap [] ?l = [] @ ?l"
    using text_map_copy [OF assms] by (intro copy_fixed) (simp_all add: keys_def)
  then show ?thesis by simp
qed

lemma leaves_val_fixed:
  "leaves_map m = m \<Longrightarrow> leaves_val (VMap m) = (if m = [] then None else Some (VMap m))"
  by (cases m) simp_all

lemma fold_Set_config: "config (fold (\<lambda>(key, v). viper_Set key v) cfg s) = config s"
  by (induction cfg arbitrary: s) (auto simp: viper_Set_def)

lemma lower_names:
  "ToLower ''inputMethod'' = ''inputmethod''"
  "ToLower ''outputMethod'' = ''outputmethod''"
  "ToLower ''inputmethod'' = ''inputmethod''"
  "ToLower ''outputmethod'' = ''outputmethod''"
  "ToLower ''inputconfig'' = ''inputconfig''"
  "ToLower ''outputconfig'' = ''outputconfig''"
  "ToLower ''validations'' = ''validations''"
  "ToLower ''transformations'' = ''transformations''"
  "ToLower ''errorhandling'' = ''errorhandling''"
  "ToLower ''strategy'' = ''strategy''"
  by (simp_all add: ToLower_simps lower_char_def)

lemma saveConfig_files:
  "write_fault w = None \<Longrightarrow>
   files (saveConfig cfg w) ''config.yaml'' =
     Some (viper_AllSettings (fold (\<lambda>(key, v). viper_Set key v) cfg (store w)))"
  by (simp add: saveConfig_def viper_WriteConfigAs_def Let_def)

lemma fold_Set_distinct:
  "distinct (map fst (override s)) \<Longrightarrow>
   distinct (map fst (override (fold (\<lambda>(key, v). viper_Set key v) cfg s)))"
  by (induction cfg arbitrary: s) (auto simp: viper_Set_def distinct_update)

lemma fold_Set_lower:
  assumes "\<forall>k\<in>keys (override s). ToLower k = k"
  shows "\<forall>k\<in>keys (override (fold (\<lambda>(key, v). viper_Set key v) cfg s)). ToLower k = k"
  using assms by (auto simp: keys_override_fold_Set ToLower_idem)

lemma saved_lookups:
  assumes "s1 = fold (\<lambda>(key, v). viper_Set key v)
            [(''inputMethod'', VStr im), (''outputMethod'', VStr om),
             (''inputconfig'', VMap ic), (''outputconfig'', VMap oc),
             (''validations'', VStr va), (''transformations'', VStr tr),
             (''errorhandling'', VMap [(''strategy'', VStr st)])] s"
  shows "map_of (override s1) ''inputmethod'' = Some (VStr im)"
    and "map_of (override s1) ''outputmethod'' = Some (VStr om)"
    and "map_of (override s1) ''validations'' = Some (VStr va)"
    and "map_of (override s1) ''transformations'' = Some (VStr tr)"
    and "map_of (override s1) ''errorhandling'' = Some (VMap [(''strategy'', VStr st)])"
    and "map_of (override s1) ''inputconfig'' = Some (VMap (copyAndInsensitiviseMap [] ic))"
    and "map_of (override s1) ''outputconfig'' = Some (VMap (copyAndInsensitiviseMap [] oc))"
  by (simp_all add: assms viper_Set_def lower_names update_conv')

lemma leaves_map_keys: "keys (leaves_map m) \<subseteq> keys m"
proof (induction m)
  case Nil
  show ?case by simp
next
  case (Cons kv m)
  obtain k v where kv: "kv = (k, v)" by (cases kv)
  have "keys (leaves_map (kv # m)) \<subseteq> insert k (keys (leaves_map m))"
    by (auto simp: kv keys_def split: option.splits)
  moreover have "keys (kv # m) = insert k (keys m)"
    by (simp add: kv keys_def)
  ultimately show ?case using Cons.IH by blast
qed

lemma leaves_map_distinct: "distinct (map fst m) \<Longrightarrow> distinct (map fst (leaves_map m))"
proof (induction m)
  case Nil
  show ?case by simp
next
  case (Cons kv m)
  obtain k v where kv: "kv = (k, v)" by (cases kv)
  have "k \<notin> keys (leaves_map m)"
    using Cons.prems leaves_map_keys [of m] by (auto simp: kv keys_def)
  then show ?case
    using Cons by (simp add: kv keys_def split: option.splits)
qed

lemma leaves_map_lookup:
  "distinct (map fst m) \<Longrightarrow>
   map_of (leaves_map m) x = (case map_of m x of None \<Rightarrow> None | Some v \<Rightarrow> leaves_val v)"
proof (induction m)
  case Nil
  show ?case by simp
next
  case (Cons kv m)
  obtain k v where kv: "kv = (k, v)" by (cases kv)
  have "k \<notin> keys (leaves_map m)"
    using Cons.prems leaves_map_keys [of m] by (auto simp: kv keys_def)
  then have n: "map_of (leaves_map m) k = None"
    by (simp add: map_of_eq_None_iff keys_def)
  show ?case
    using Cons n by (simp add: kv split: option.splits)
qed

lemma copy_lower_keys:
  "distinct (map fst m) \<Longrightarrow> \<forall>k\<in>keys m. ToLower k = k \<Longrightarrow> keys nm \<inter> keys m = {} \<Longrightarrow>
   copyAndInsensitiviseMap nm m = nm @ map (\<lambda>(k, v). (k, toCaseInsensitiveValue v)) m"
proof (induction m arbitrary: nm)
  case Nil
  show ?case by simp
next
  case (Cons kv m)
  obtain k v where kv: "kv = (k, v)" by (cases kv)
  have m: "distinct (map fst m)" and km: "k \<notin> keys m"
    using Cons.prems(1) by (simp_all add: kv keys_def)
  have lk: "ToLower k = k" and lm: "\<forall>k\<in>keys m. ToLower k = k"
    using Cons.prems(2) by (simp_all add: kv keys_def)
  have knm: "k \<notin> fst ` set nm" and disj: "keys nm \<inter> keys m = {}"
    using Cons.prems(3) by (auto simp: kv keys_def)
  have disj': "keys (nm @ [(k, toCaseInsensitiveValue v)]) \<inter> keys m = {}"
    using disj km by (auto simp: keys_def)
  have "copyAndInsensitiviseMap nm (kv # m) =
      copyAndInsensitiviseMap (nm @ [(k, toCaseInsensitiveValue v)]) m"
    by (simp add: kv lk update_new [OF knm])
  also have "\<dots> = (nm @ [(k, toCaseInsensitiveValue v)])
      @ map (\<lambda>(k, v). (k, toCaseInsensitiveValue v)) m"
    using m lm disj' by (rule Cons.IH)
  finally show ?case by (simp add: kv)
qed

lemma copy_lookup:
  assumes "distinct (map fst m)" and "\<forall>k\<in>keys m. ToLower k = k"
  shows "map_of (copyAndInsensitiviseMap [] m) x = map_option toCaseInsensitiveValue (map_of m x)"
proof -
  have "copyAndInsensitiviseMap [] m = [] @ map (\<lambda>(k, v). (k, toCaseInsensitiveValue v)) m"
    using assms by (rule copy_lower_keys) (simp add: keys_def)
  then show ?thesis by (simp add: map_of_map)
qed

lemma get_doc:
  assumes ov: "override s = [] \<or>
        (map_of (override s) ''inputmethod'' = Some (VStr im)
         \<and> map_of (override s) ''outputmethod'' = Some (VStr om)
         \<and> map_of (override s) ''validations'' = Some (VStr va)
         \<and> map_of (override s) ''transformations'' = Some (VStr tr)
         \<and> map_of (override s) ''errorhandling'' = Some (VMap [(''strategy'', VStr st)])
         \<and> map_of (override s) ''inputconfig'' = Some (VMap icl)
         \<and> map_of (override s) ''outputconfig'' = Some (VMap ocl))"
    and F: "config s = F"
    and im: "map_of F ''inputmethod'' = Some (VStr im)"
    and om: "map_of F ''outputmethod'' = Some (VStr om)"
    and va: "map_of F ''validations'' = Some (VStr va)"
    and tr: "map_of F ''transformations'' = Some (VStr tr)"
    and eh: "map_of F ''errorhandling'' = Some (VMap [(''strategy'', VStr st)])"
    and ic: "map_of F ''inputconfig'' = (if icl = [] then None else Some (VMap icl))"
    and oc: "map_of F ''outputconfig'' = (if ocl = [] then None else Some (VMap ocl))"
  shows "viper_GetString ''inputMethod'' s = im"
    and "viper_GetString ''outputMethod'' s = om"
    and "viper_GetStringMap json ''inputconfig'' s = icl"
    and "viper_GetStringMap json ''outputconfig'' s = ocl"
    and "viper_GetStringMap json ''errorhandling'' s = [(''strategy'', VStr st)]"
    and "viper_GetString ''validations'' s = va"
    and "viper_GetString ''transformations'' s = tr"
proof -
  note gets = viper_GetString_def viper_GetStringMap_def viper_Get_def lower_names Let_def F
  from ov show "viper_GetString ''inputMethod'' s = im"
    by (rule disjE) (simp_all add: gets im)
  from ov show "viper_GetString ''outputMethod'' s = om"
    by (rule disjE) (simp_all add: gets om)
  from ov show "viper_GetStringMap json ''inputconfig'' s = icl"
    by (rule disjE) (simp_all add: gets ic)
  from ov show "viper_GetStringMap json ''outputconfig'' s = ocl"
    by (rule disjE) (simp_all add: gets oc)
  from ov show "viper_GetStringMap json ''errorhandling'' s = [(''strategy'', VStr st)]"
    by (rule disjE) (simp_all add: gets eh)
  from ov show "viper_GetString ''validations'' s = va"
    by (rule disjE) (simp_all add: gets va)
  from ov show "viper_GetString ''transformations'' s = tr"
    by (rule disjE) (simp_all add: gets tr)
qed

lemma loaded_doc:
  assumes fl: "files v ''config.yaml'' = Some F"
    and im: "map_of (copyAndInsensitiviseMap [] F) ''inputmethod'' = Some (VStr im)"
    and om: "map_of (copyAndInsensitiviseMap [] F) ''outputmethod'' = Some (VStr om)"
    and va: "map_of (copyAndInsensitiviseMap [] F) ''validations'' = Some (VStr va)"
    and tr: "map_of (copyAndInsensitiviseMap [] F) ''transformations'' = Some (VStr tr)"
    and eh: "map_of (copyAndInsensitiviseMap [] F) ''errorhandling'' =
               Some (VMap [(''strategy'', VStr st)])"
    and ic: "map_of (copyAndInsensitiviseMap [] F) ''inputconfig'' =
               (if icl = [] then None else Some (VMap icl))"
    and oc: "map_of (copyAndInsensitiviseMap [] F) ''outputconfig'' =
               (if ocl = [] then None else Some (VMap ocl))"
    and ov: "override (store v) = [] \<or>
        (map_of (override (store v)) ''inputmethod'' = Some (VStr im)
         \<and> map_of (override (store v)) ''outputmethod'' = Some (VStr om)
         \<and> map_of (override (store v)) ''validations'' = Some (VStr va)
         \<and> map_of (override (store v)) ''transformations'' = Some (VStr tr)
         \<and> map_of (override (store v)) ''errorhandling'' = Some (VMap [(''strategy'', VStr st)])
         \<and> map_of (override (store v)) ''inputconfig'' = Some (VMap icl)
         \<and> map_of (override (store v)) ''outputconfig'' = Some (VMap ocl))"
  shows "fst (LoadConfig json ''config.yaml'' v) =
     Inr [(''inputMethod'', VStr im), (''outputMethod'', VStr om),
          (''inputconfig'', VMap icl), (''outputconfig'', VMap ocl),
          (''errorhandling'', VMap [(''strategy'', VStr st)]),
          (''validations'', VStr va), (''transformations'', VStr tr)]"
proof -
  define C where "C = copyAndInsensitiviseMap [] F"
  define s where "s = (store v)\<lparr>configFile := ''config.yaml'', config := C\<rparr>"
  have read: "viper_ReadInConfig (viper_SetConfigFile ''config.yaml'' v) =
      (None, v\<lparr>store := s\<rparr>)"
    using fl
    by (simp add: viper_ReadInConfig_def viper_SetConfigFile_def s_def C_def)
  have ov': "override s = [] \<or>
        (map_of (override s) ''inputmethod'' = Some (VStr im)
         \<and> map_of (override s) ''outputmethod'' = Some (VStr om)
         \<and> map_of (override s) ''validations'' = Some (VStr va)
         \<and> map_of (override s) ''transformations'' = Some (VStr tr)
         \<and> map_of (override s) ''errorhandling'' = Some (VMap [(''strategy'', VStr st)])
         \<and> map_of (override s) ''inputconfig'' = Some (VMap icl)
         \<and> map_of (override s) ''outputconfig'' = Some (VMap ocl))"
    using ov by (simp add: s_def)
  have cf: "config s = C"
    by (simp add: s_def)
  note g = get_doc [OF ov' cf im [folded C_def] om [folded C_def] va [folded C_def]
      tr [folded C_def] eh [folded C_def] ic [folded C_def] oc [folded C_def]]
  show ?thesis
    unfolding LoadConfig_def read by (simp add: g)
qed

lemma reload_explicit:
  assumes su: "SetupConfigInteractively reg w = (Inr doc, w1)"
    and unread: "config (store w) = []"
    and earlier: "override (store w) =
                    override (fold (\<lambda>(key, v). viper_Set key v) sets fresh_viper)"
    and writes: "write_fault w = None"
    and later: "files v = files w1"
    and unset: "override (store v) = [] \<or> override (store v) = override (store w1)"
  shows "\<exists>im om ic oc va tr st.
      doc = [(''inputMethod'', VStr im), (''outputMethod'', VStr om),
             (''inputconfig'', VMap ic), (''outputconfig'', VMap oc),
             (''validations'', VStr va), (''transformations'', VStr tr),
             (''errorhandling'', VMap [(''strategy'', VStr st)])]
      \<and> text_map ic \<and> text_map oc
      \<and> fst (LoadConfig json ''config.yaml'' v) =
          Inr [(''inputMethod'', VStr im), (''outputMethod'', VStr om),
               (''inputconfig'', VMap (copyAndInsensitiviseMap [] ic)),
               (''outputconfig'', VMap (copyAndInsensitiviseMap [] oc)),
               (''errorhandling'', VMap [(''strategy'', VStr st)]),
               (''validations'', VStr va), (''transformations'', VStr tr)]"
proof -
  obtain rc wc where c: "collect_config reg w = (rc, wc)"
    by (cases "collect_config reg w")
  have rc: "rc = Inr doc" and w1: "w1 = saveConfig doc wc"
    using su c by (auto simp: Setup_collect split: sum.splits)
  have q: "quiet w (rc, wc)"
    using quiet_collect_config [of w reg] c by simp
  then have swc: "store wc = store w" and fwc: "write_fault wc = write_fault w"
    by (simp_all add: quiet_def)
  obtain im om ic oc va tr st where
    doc: "doc = [(''inputMethod'', VStr im), (''outputMethod'', VStr om),
             (''inputconfig'', VMap ic), (''outputconfig'', VMap oc),
             (''validations'', VStr va), (''transformations'', VStr tr),
             (''errorhandling'', VMap [(''strategy'', VStr st)])]"
    and tic: "text_map ic" and toc: "text_map oc"
    using collect_config_shape [of reg w doc wc] c rc by auto
  let ?icl = "copyAndInsensitiviseMap [] ic"
  let ?ocl = "copyAndInsensitiviseMap [] oc"
  define s1 where "s1 = fold (\<lambda>(key, v). viper_Set key v) doc (store wc)"
  define F where "F = leaves_map (override s1)"
  have s1: "store w1 = s1"
    by (simp add: w1 saveConfig_store s1_def)
  have d0: "distinct (map fst (override (store wc)))"
    unfolding swc earlier by (rule fold_Set_distinct) (simp add: fresh_viper_def)
  have l0: "\<forall>k\<in>keys (override (store wc)). ToLower k = k"
    unfolding swc earlier by (rule fold_Set_lower) (simp add: fresh_viper_def keys_def)
  have d1: "distinct (map fst (override s1))"
    unfolding s1_def using d0 by (rule fold_Set_distinct)
  have l1: "\<forall>k\<in>keys (override s1). ToLower k = k"
    unfolding s1_def using l0 by (rule fold_Set_lower)
  note o = saved_lookups [OF s1_def [unfolded doc]]
  have cf1: "config s1 = []"
    by (simp add: s1_def fold_Set_config swc unread)
  have li: "leaves_map ?icl = ?icl" and lo: "leaves_map ?ocl = ?ocl"
    using tic toc by (simp_all add: leaves_text_map text_map_copy)
  have all: "viper_AllSettings s1 = F"
    by (simp add: viper_AllSettings_def cf1 merge_over_Nil F_def)
  have "files w1 ''config.yaml'' = Some (viper_AllSettings s1)"
    unfolding w1 s1_def by (rule saveConfig_files) (simp add: fwc writes)
  then have fl: "files v ''config.yaml'' = Some F"
    by (simp add: later all)
  have dF: "distinct (map fst F)"
    unfolding F_def using d1 by (rule leaves_map_distinct)
  have lF: "\<forall>k\<in>keys F. ToLower k = k"
    using l1 leaves_map_keys [of "override s1"] by (auto simp: F_def)
  have look: "map_of (copyAndInsensitiviseMap [] F) x =
      map_option toCaseInsensitiveValue
        (case map_of (override s1) x of None \<Rightarrow> None | Some v \<Rightarrow> leaves_val v)" for x
    by (simp only: copy_lookup [OF dF lF]) (simp add: F_def leaves_map_lookup [OF d1])
  have eh: "leaves_val (VMap [(''strategy'', VStr st)]) = Some (VMap [(''strategy'', VStr st)])"
    by simp
  have ci: "toCaseInsensitiveValue (VMap ?icl) = VMap ?icl"
    and co: "toCaseInsensitiveValue (VMap ?ocl) = VMap ?ocl"
    using copy_idem [OF tic] copy_idem [OF toc] by simp_all
  have ce: "toCaseInsensitiveValue (VMap [(''strategy'', VStr st)]) =
      VMap [(''strategy'', VStr st)]"
    by (simp add: lower_names)
  have c1: "map_of (copyAndInsensitiviseMap [] F) ''inputmethod'' = Some (VStr im)"
    by (simp add: look o(1))
  have c2: "map_of (copyAndInsensitiviseMap [] F) ''outputmethod'' = Some (VStr om)"
    by (simp add: look o(2))
  have c3: "map_of (copyAndInsensitiviseMap [] F) ''validations'' = Some (VStr va)"
    by (simp add: look o(3))
  have c4: "map_of (copyAndInsensitiviseMap [] F) ''transformations'' = Some (VStr tr)"
    by (simp add: look o(4))
  have c5: "map_of (copyAndInsensitiviseMap [] F) ''errorhandling'' =
      Some (VMap [(''strategy'', VStr st)])"
    by (simp add: look o(5) eh ce del: leaves_val.simps(1) toCaseInsensitiveValue.simps(1))
  have c6: "map_of (copyAndInsensitiviseMap [] F) ''inputconfig'' =
      (if ?icl = [] then None else Some (VMap ?icl))"
    by (simp add: look o(6) leaves_val_fixed [OF li] ci
        del: leaves_val.simps(1) toCaseInsensitiveValue.simps(1))
  have c7: "map_of (copyAndInsensitiviseMap [] F) ''outputconfig'' =
      (if ?ocl = [] then None else Some (VMap ?ocl))"
    by (simp add: look o(7) leaves_val_fixed [OF lo] co
        del: leaves_val.simps(1) toCaseInsensitiveValue.simps(1))
  have ov: "override (store v) = [] \<or>
        (map_of (override (store v)) ''inputmethod'' = Some (VStr im)
         \<and> map_of (override (store v)) ''outputmethod'' = Some (VStr om)
         \<and> map_of (override (store v)) ''validations'' = Some (VStr va)
         \<and> map_of (override (store v)) ''transformations'' = Some (VStr tr)
         \<and> map_of (override (store v)) ''errorhandling'' = Some (VMap [(''strategy'', VStr st)])
         \<and> map_of (override (store v)) ''inputconfig'' = Some (VMap ?icl)
         \<and> map_of (override (store v)) ''outputconfig'' = Some (VMap ?ocl))"
    using unset
  proof
    assume "override (store v) = []"
    then show ?thesis by (rule disjI1)
  next
    assume "override (store v) = override (store w1)"
    then have e: "override (store v) = override s1"
      by (simp add: s1)
    show ?thesis
      unfolding e by (rule disjI2) (intro conjI o)
  qed
  have "fst (LoadConfig json ''config.yaml'' v) =
          Inr [(''inputMethod'', VStr im), (''outputMethod'', VStr om),
               (''inputconfig'', VMap ?icl), (''outputconfig'', VMap ?ocl),
               (''errorhandling'', VMap [(''strategy'', VStr st)]),
               (''validations'', VStr va), (''transformations'', VStr tr)]"
    using fl c1 c2 c3 c4 c5 c6 c7 ov by (rule loaded_doc)
  then show ?thesis using doc tic toc by simp
qed

section \<open>Loading what was persisted\<close>

lemmas session_defs =
  SetupConfigInteractively_def example_registry_def
  getRegisteredDataSources_def getRegisteredDataDestinations_def
  select_Run_def prompt_Run_def answer_def readIntegrationFields_def registry_GetSource_def
  registry_GetDestination_def csv_source_def sql_destination_def kafka_source_def
  string_type_def field_label_def readRules_def read_rules.simps rules_label_def
  readErrorHandlingConfig_def Let_def

lemmas store_defs =
  saveConfig_def viper_WriteConfigAs_def viper_AllSettings_def viper_Set_def
  viper_SetConfigFile_def viper_ReadInConfig_def viper_GetString_def viper_GetStringMap_def
  viper_Get_def fresh_viper_def ToLower_simps lower_char_def

lemma example_file:
  "files (snd (SetupConfigInteractively example_registry (world0\<lparr>inputs := example_answers\<rparr>)))
     ''config.yaml'' =
   Some [(''inputmethod'', VStr ''CSV''), (''outputmethod'', VStr ''SQL''),
         (''inputconfig'', VMap [(''path'', VStr ''/in.csv'')]),
         (''outputconfig'', VMap [(''dsn'', VStr ''postgres://x''), (''table'', VStr ''out'')]),
         (''validations'', VStr (''not_null(id)'' @ [CHR 0x0A])),
         (''transformations'', VStr []),
         (''errorhandling'', VMap [(''strategy'', VStr ''STOP_ON_ERROR'')])]"
  by (simp add: session_defs store_defs world0_def example_answers_def)

lemma later_process_simps:
  "files (later_process w) = files w"
  "store (later_process w) = fresh_viper"
  "logged (later_process w) = []"
  by (simp_all add: later_process_def world0_def)

lemma load_fresh:
  assumes "files v ''config.yaml'' = Some F" and "store v = fresh_viper"
  shows "fst (LoadConfig json ''config.yaml'' v) =
     (let s = \<lparr>override = [], config = copyAndInsensitiviseMap [] F,
                configFile = ''config.yaml''\<rparr>
      in Inr [(''inputMethod'', VStr (viper_GetString ''inputMethod'' s)),
              (''outputMethod'', VStr (viper_GetString ''outputMethod'' s)),
              (''inputconfig'', VMap (viper_GetStringMap json ''inputconfig'' s)),
              (''outputconfig'', VMap (viper_GetStringMap json ''outputconfig'' s)),
              (''errorhandling'', VMap (viper_GetStringMap json ''errorhandling'' s)),
              (''validations'', VStr (viper_GetString ''validations'' s)),
              (''transformations'', VStr (viper_GetString ''transformations'' s))])"
  using assms
  by (simp add: LoadConfig_def viper_SetConfigFile_def viper_ReadInConfig_def fresh_viper_def
      Let_def)

lemma example_reload:
  "fst (LoadConfig no_json ''config.yaml''
         (later_process (snd (SetupConfigInteractively example_registry
            (world0\<lparr>inputs := example_answers\<rparr>))))) = Inr example_reloaded"
proof -
  have f: "files (later_process (snd (SetupConfigInteractively example_registry
            (world0\<lparr>inputs := example_answers\<rparr>)))) ''config.yaml'' =
      Some [(''inputmethod'', VStr ''CSV''), (''outputmethod'', VStr ''SQL''),
         (''inputconfig'', VMap [(''path'', VStr ''/in.csv'')]),
         (''outputconfig'', VMap [(''dsn'', VStr ''postgres://x''), (''table'', VStr ''out'')]),
         (''validations'', VStr (''not_null(id)'' @ [CHR 0x0A])),
         (''transformations'', VStr []),
         (''errorhandling'', VMap [(''strategy'', VStr ''STOP_ON_ERROR'')])]"
    by (simp only: later_process_simps example_file)
  show ?thesis
    unfolding load_fresh [OF f later_process_simps(2)]
    by (simp add: viper_GetString_def viper_GetStringMap_def viper_Get_def ToLower_simps
        lower_char_def example_reloaded_def)
qed


lemma second_session_eq:
  "second_session =
     world_with_file
       \<lparr>store := \<lparr>override = [],
                    config = [(''inputmethod'', VStr ''CSV''), (''outputmethod'', VStr ''SQL''),
                              (''inputconfig'', VMap [(''path'', VStr ''/in.csv'')]),
                              (''validations'', VStr ''not_null(id)''),
                              (''owner'', VStr ''ops'')],
                    configFile = ''config.yaml''\<rparr>,
        logged := [''Configuration loaded from config.yaml''],
        inputs := kafka_answers\<rparr>"
  by (simp add: second_session_def LoadConfig_def world_with_file_def world0_def
      stored_file_def viper_SetConfigFile_def viper_ReadInConfig_def fresh_viper_def
      ToLower_simps lower_char_def)

lemma kafka_run:
  "fst (SetupConfigInteractively example_registry second_session) = Inr kafka_doc"
  unfolding second_session_eq
  by (simp add: session_defs world_with_file_def world0_def kafka_answers_def kafka_doc_def)

lemma kafka_file:
  "files (snd (SetupConfigInteractively example_registry second_session)) ''config.yaml'' =
   Some [(''inputmethod'', VStr ''Kafka''), (''outputmethod'', VStr ''SQL''),
         (''inputconfig'', VMap [(''brokers'', VStr ''b1:9092''), (''path'', VStr ''/in.csv'')]),
         (''outputconfig'', VMap [(''dsn'', VStr ''postgres://x''), (''table'', VStr ''out'')]),
         (''validations'', VStr []),
         (''transformations'', VStr []),
         (''errorhandling'', VMap [(''strategy'', VStr ''STOP_ON_ERROR'')]),
         (''owner'', VStr ''ops'')]"
  unfolding second_session_eq
  by (simp add: session_defs store_defs world_with_file_def world0_def kafka_answers_def)

lemma kafka_reload:
  "fst (LoadConfig no_json ''config.yaml''
         (later_process (snd (SetupConfigInteractively example_registry second_session)))) =
     Inr kafka_reloaded"
proof -
  have f: "files (later_process (snd (SetupConfigInteractively example_registry
            second_session))) ''config.yaml'' =
      Some [(''inputmethod'', VStr ''Kafka''), (''outputmethod'', VStr ''SQL''),
         (''inputconfig'', VMap [(''brokers'', VStr ''b1:9092''), (''path'', VStr ''/in.csv'')]),
         (''outputconfig'', VMap [(''dsn'', VStr ''postgres://x''), (''table'', VStr ''out'')]),
         (''validations'', VStr []),
         (''transformations'', VStr []),
         (''errorhandling'', VMap [(''strategy'', VStr ''STOP_ON_ERROR'')]),
         (''owner'', VStr ''ops'')]"
    by (simp only: later_process_simps kafka_file)
  show ?thesis
    unfolding load_fresh [OF f later_process_simps(2)]
    by (simp add: viper_GetString_def viper_GetStringMap_def viper_Get_def ToLower_simps
        lower_char_def kafka_reloaded_def)
qed


text \<open>
  Claim C1 says that loading the persisted document gives back the key sets of its
  \<^verbatim>\<open>inputconfig\<close> and \<^verbatim>\<open>outputconfig\<close>. The store lower-cases every key, also inside nested
  maps: the example session enters \<^verbatim>\<open>Path\<close>, a later process loads \<^verbatim>\<open>path\<close>. And the store
  writes all it holds: in a process that has loaded a settings file before, the second
  session enters \<^verbatim>\<open>Brokers\<close> only, and the later process loads \<^verbatim>\<open>brokers\<close> together with
  the \<^verbatim>\<open>path\<close> of the older file.
\<close>

theorem reload_counterexample:
  "fst (SetupConfigInteractively example_registry (world0\<lparr>inputs := example_answers\<rparr>)) =
     Inr example_doc
   \<and> fst (LoadConfig no_json ''config.yaml''
         (later_process (snd (SetupConfigInteractively example_registry
            (world0\<lparr>inputs := example_answers\<rparr>))))) = Inr example_reloaded
   \<and> map_of example_doc ''inputconfig'' = Some (VMap [(''Path'', VStr ''/in.csv'')])
   \<and> map_of example_reloaded ''inputconfig'' = Some (VMap [(''path'', VStr ''/in.csv'')])
   \<and> keys [(''path'', VStr ''/in.csv'')] \<noteq> keys [(''Path'', VStr ''/in.csv'')]
   \<and> fst (SetupConfigInteractively example_registry second_session) = Inr kafka_doc
   \<and> fst (LoadConfig no_json ''config.yaml''
         (later_process (snd (SetupConfigInteractively example_registry second_session)))) =
       Inr kafka_reloaded
   \<and> map_of kafka_doc ''inputconfig'' = Some (VMap [(''Brokers'', VStr ''b1:9092'')])
   \<and> map_of kafka_reloaded ''inputconfig'' =
       Some (VMap [(''brokers'', VStr ''b1:9092''), (''path'', VStr ''/in.csv'')])"
proof -
  have a: "map_of example_doc ''inputconfig'' = Some (VMap [(''Path'', VStr ''/in.csv'')])"
    by (simp add: example_doc_def)
  have b: "map_of example_reloaded ''inputconfig'' = Some (VMap [(''path'', VStr ''/in.csv'')])"
    by (simp add: example_reloaded_def)
  have c: "keys [(''path'', VStr ''/in.csv'')] \<noteq> keys [(''Path'', VStr ''/in.csv'')]"
    by (simp add: keys_def)
  have d: "map_of kafka_doc ''inputconfig'' = Some (VMap [(''Brokers'', VStr ''b1:9092'')])"
    by (simp add: kafka_doc_def)
  have e: "map_of kafka_reloaded ''inputconfig'' =
       Some (VMap [(''brokers'', VStr ''b1:9092''), (''path'', VStr ''/in.csv'')])"
    by (simp add: kafka_reloaded_def)
  show ?thesis
    using example_run example_reload a b c kafka_run kafka_reload d e
    by (intro conjI)
qed

lemma setup_store:
  assumes "SetupConfigInteractively reg w = (Inr doc, w1)"
  shows "store w1 = fold (\<lambda>(key, v). viper_Set key v) doc (store w)"
    and "write_fault w1 = write_fault w"
proof -
  obtain rc wc where c: "collect_config reg w = (rc, wc)"
    by (cases "collect_config reg w")
  have rc: "rc = Inr doc" and w1: "w1 = saveConfig doc wc"
    using assms c by (auto simp: Setup_collect split: sum.splits)
  have "quiet w (rc, wc)"
    using quiet_collect_config [of w reg] c by simp
  then have swc: "store wc = store w" and fwc: "write_fault wc = write_fault w"
    by (simp_all add: quiet_def)
  show "store w1 = fold (\<lambda>(key, v). viper_Set key v) doc (store w)"
    by (simp add: w1 saveConfig_store swc)
  show "write_fault w1 = write_fault w"
    by (simp add: w1 fwc saveConfig_def viper_WriteConfigAs_def Let_def
        split: option.splits prod.splits)
qed

lemma kafka_first_run:
  "fst (SetupConfigInteractively example_registry (world0\<lparr>inputs := kafka_answers\<rparr>)) =
     Inr kafka_doc"
  by (simp add: session_defs kafka_answers_def kafka_doc_def)

lemma next_session_state:
  "inputs next_session = example_answers"
  "store next_session = fold (\<lambda>(key, v). viper_Set key v) kafka_doc fresh_viper"
  "write_fault next_session = None"
proof -
  let ?w = "world0\<lparr>inputs := kafka_answers\<rparr>"
  have run: "SetupConfigInteractively example_registry ?w =
      (Inr kafka_doc, snd (SetupConfigInteractively example_registry ?w))"
    using kafka_first_run by (simp add: prod_eq_iff)
  show "inputs next_session = example_answers"
    by (simp add: next_session_def)
  show "store next_session = fold (\<lambda>(key, v). viper_Set key v) kafka_doc fresh_viper"
    using setup_store(1) [OF run] by (simp add: next_session_def world0_def)
  show "write_fault next_session = None"
    using setup_store(2) [OF run] by (simp add: next_session_def world0_def)
qed

lemma next_run:
  "fst (SetupConfigInteractively example_registry next_session) = Inr example_doc"
  by (simp add: session_defs next_session_state(1) example_answers_def example_doc_def)

text \<open>
  Claim C1, amended. Let the interactive collection run in a process that has read no
  settings file, whatever it has set before; let it return the document \<open>doc\<close>, with field
  names in ASCII, and let the write succeed. Loading \<^verbatim>\<open>config.yaml\<close> afterwards, in a later
  process that has set nothing or in the same process, yields a document with the
  \<^verbatim>\<open>inputMethod\<close> and the \<^verbatim>\<open>outputMethod\<close> of \<open>doc\<close>, and whose \<^verbatim>\<open>inputconfig\<close> and
  \<^verbatim>\<open>outputconfig\<close> have as keys the lower-cased keys of those of \<open>doc\<close>; every field name that
  no other field of the integration equals up to case is bound, in lower case, to the text
  entered for it.
\<close>

theorem reload_after_persist:
  assumes "SetupConfigInteractively reg w = (Inr doc, w1)"
    and "config (store w) = []"
    and "override (store w) = override (fold (\<lambda>(key, v). viper_Set key v) sets fresh_viper)"
    and "write_fault w = None"
    and "files v = files w1"
    and "override (store v) = [] \<or> override (store v) = override (store w1)"
    and "\<forall>k\<in>field_names doc. ascii k"
  shows "\<exists>doc' v'. LoadConfig json ''config.yaml'' v = (Inr doc', v')
      \<and> map_of doc' ''inputMethod'' = map_of doc ''inputMethod''
      \<and> map_of doc' ''outputMethod'' = map_of doc ''outputMethod''
      \<and> (\<exists>ic ic'. map_of doc ''inputconfig'' = Some (VMap ic)
            \<and> map_of doc' ''inputconfig'' = Some (VMap ic') \<and> text_map ic \<and> lowered ic ic')
      \<and> (\<exists>oc oc'. map_of doc ''outputconfig'' = Some (VMap oc)
            \<and> map_of doc' ''outputconfig'' = Some (VMap oc') \<and> text_map oc \<and> lowered oc oc')"
proof -
  obtain im om ic oc va tr st where
    doc: "doc = [(''inputMethod'', VStr im), (''outputMethod'', VStr om),
             (''inputconfig'', VMap ic), (''outputconfig'', VMap oc),
             (''validations'', VStr va), (''transformations'', VStr tr),
             (''errorhandling'', VMap [(''strategy'', VStr st)])]"
    and tic: "text_map ic" and toc: "text_map oc"
    and load: "fst (LoadConfig json ''config.yaml'' v) =
          Inr [(''inputMethod'', VStr im), (''outputMethod'', VStr om),
               (''inputconfig'', VMap (copyAndInsensitiviseMap [] ic)),
               (''outputconfig'', VMap (copyAndInsensitiviseMap [] oc)),
               (''errorhandling'', VMap [(''strategy'', VStr st)]),
               (''validations'', VStr va), (''transformations'', VStr tr)]"
    using reload_explicit [OF assms(1-6), of json] by auto
  let ?doc' = "[(''inputMethod'', VStr im), (''outputMethod'', VStr om),
               (''inputconfig'', VMap (copyAndInsensitiviseMap [] ic)),
               (''outputconfig'', VMap (copyAndInsensitiviseMap [] oc)),
               (''errorhandling'', VMap [(''strategy'', VStr st)]),
               (''validations'', VStr va), (''transformations'', VStr tr)]"
  have run: "LoadConfig json ''config.yaml'' v =
      (Inr ?doc', snd (LoadConfig json ''config.yaml'' v))"
    using load by (simp add: prod_eq_iff)
  have m: "map_of ?doc' ''inputMethod'' = map_of doc ''inputMethod''"
    "map_of ?doc' ''outputMethod'' = map_of doc ''outputMethod''"
    by (simp_all add: doc)
  have i: "map_of doc ''inputconfig'' = Some (VMap ic)
      \<and> map_of ?doc' ''inputconfig'' = Some (VMap (copyAndInsensitiviseMap [] ic))
      \<and> text_map ic \<and> lowered ic (copyAndInsensitiviseMap [] ic)"
    using tic lowered_copy [OF tic] by (simp add: doc)
  have o: "map_of doc ''outputconfig'' = Some (VMap oc)
      \<and> map_of ?doc' ''outputconfig'' = Some (VMap (copyAndInsensitiviseMap [] oc))
      \<and> text_map oc \<and> lowered oc (copyAndInsensitiviseMap [] oc)"
    using toc lowered_copy [OF toc] by (simp add: doc)
  show ?thesis
    apply (rule exI [of _ ?doc'])
    apply (rule exI [of _ "snd (LoadConfig json ''config.yaml'' v)"])
    apply (intro conjI)
        apply (rule run)
       apply (rule m(1))
      apply (rule m(2))
     apply (rule exI [of _ ic], rule exI [of _ "copyAndInsensitiviseMap [] ic"], rule i)
    apply (rule exI [of _ oc], rule exI [of _ "copyAndInsensitiviseMap [] oc"], rule o)
    done
qed

theorem reload_after_persist_witness:
  "\<exists>doc' v'. LoadConfig no_json ''config.yaml''
         (later_process (snd (SetupConfigInteractively example_registry next_session))) =
           (Inr doc', v')
     \<and> map_of doc' ''inputMethod'' = Some (VStr ''CSV'')
     \<and> map_of doc' ''outputMethod'' = Some (VStr ''SQL'')
     \<and> (\<exists>ic'. map_of doc' ''inputconfig'' = Some (VMap ic') \<and> keys ic' = {''path''}
            \<and> map_of ic' ''path'' = Some (VStr ''/in.csv''))"
proof -
  let ?w1 = "snd (SetupConfigInteractively example_registry next_session)"
  have run: "SetupConfigInteractively example_registry next_session = (Inr example_doc, ?w1)"
    using next_run by (simp add: prod_eq_iff)
  have h1: "config (store next_session) = []"
    by (simp add: next_session_state(2) fold_Set_config fresh_viper_def)
  have h2: "override (store next_session) =
      override (fold (\<lambda>(key, v). viper_Set key v) kafka_doc fresh_viper)"
    by (simp only: next_session_state(2))
  have h3: "write_fault next_session = None"
    by (rule next_session_state(3))
  have h4: "files (later_process ?w1) = files ?w1"
    by (simp only: later_process_simps)
  have h5: "override (store (later_process ?w1)) = [] \<or>
      override (store (later_process ?w1)) = override (store ?w1)"
    by (rule disjI1) (simp add: later_process_simps fresh_viper_def)
  have h6: "\<forall>k\<in>field_names example_doc. ascii k"
    by (simp add: field_names_def example_doc_def keys_def ascii_def)
  from reload_after_persist [OF run h1 h2 h3 h4 h5 h6, of no_json]
  obtain doc' v' ic ic' where
    load: "LoadConfig no_json ''config.yaml'' (later_process ?w1) = (Inr doc', v')"
    and im: "map_of doc' ''inputMethod'' = map_of example_doc ''inputMethod''"
    and om: "map_of doc' ''outputMethod'' = map_of example_doc ''outputMethod''"
    and ic: "map_of example_doc ''inputconfig'' = Some (VMap ic)"
    and ic': "map_of doc' ''inputconfig'' = Some (VMap ic')"
    and low: "lowered ic ic'"
    by (elim exE conjE)
  have ic_eq: "ic = [(''Path'', VStr ''/in.csv'')]"
    using ic by (simp add: example_doc_def)
  have lp: "ToLower ''Path'' = ''path''"
    by (simp add: ToLower_simps lower_char_def)
  have k: "keys ic' = {''path''}"
    using low by (simp add: lowered_def ic_eq keys_def lp)
  have "map_of ic' (ToLower ''Path'') = map_of [(''Path'', VStr ''/in.csv'')] ''Path''"
    using low by (simp add: lowered_def ic_eq keys_def)
  then have v: "map_of ic' ''path'' = Some (VStr ''/in.csv'')"
    by (simp add: lp)
  have im': "map_of doc' ''inputMethod'' = Some (VStr ''CSV'')"
    and om': "map_of doc' ''outputMethod'' = Some (VStr ''SQL'')"
    using im om by (simp_all add: example_doc_def)
  show ?thesis
    apply (rule exI [of _ doc'], rule exI [of _ v'])
    apply (intro conjI)
       apply (rule load)
      apply (rule im')
     apply (rule om')
    apply (rule exI [of _ ic'])
    apply (intro conjI)
      apply (rule ic')
     apply (rule k)
    apply (rule v)
    done
qed

section \<open>What the simpler variant loads\<close>





end
